theory Spec2Isabelle
  imports Main
begin

section \<open>The graph client of the render surface (graphClient.ts)\<close>

subsection \<open>Result records\<close>

text \<open>
  The results arrive over the socket as parsed JSON (\<^verbatim>\<open>any[]\<close> in the source:
  "queryResults may contain any type of data, not just vertices or edges"). The type
  parameter \<open>'n\<close> stands for the numbers JSON.parse yields. The property list of
  \<open>JObj\<close> is the object's own properties in order; a parsed object has each key once.
\<close>

datatype 'n json =
    JNull
  | JBool bool
  | JNum 'n
  | JStr string
  | JArr "'n json list"
  | JObj "(string \<times> 'n json) list"

text \<open>The value of a property access: \<open>None\<close> is JavaScript's \<^verbatim>\<open>undefined\<close>.\<close>

type_synonym 'n jsval = "'n json option"

text \<open>
  The call sites of d3 inside the try block of \<^verbatim>\<open>displayGraph\<close>, in source
  order, after its first statement \<^verbatim>\<open>clearGraph\<close>. An exception of the library is
  one of these sites failing. The d3 calls of \<^verbatim>\<open>clearGraph\<close>, \<^verbatim>\<open>_setState\<close>,
  \<^verbatim>\<open>setView\<close> and of the title, which also run outside any try block, are taken
  to succeed.
\<close>

datatype render_step =
    AtStatsText
  | AtForceStop
  | AtForceCreate
  | AtForceConfig
  | AtSvgGroup
  | AtEdgeLines
  | AtForceDrag
  | AtLabelTexts
  | AtVertexCircles
  | AtForceOnTick
  | AtForceStart

text \<open>
  The exceptions of the model: the TypeError JavaScript raises when a property of
  \<^verbatim>\<open>null\<close> is read (it carries the property's name), and an exception
  thrown by a d3 call.
\<close>

datatype js_error =
    TypeError string
  | RenderError render_step

text \<open>
  \<^verbatim>\<open>n.type\<close>, \<^verbatim>\<open>n.vertex.id\<close>, \<^verbatim>\<open>e.inV\<close>, \<^verbatim>\<open>e.outV\<close>: reading
  a property of null throws; an object yields the property's value or undefined;
  booleans, numbers, strings and arrays have none of the four properties the client reads.
\<close>

fun get_prop :: "'n json \<Rightarrow> string \<Rightarrow> js_error + 'n jsval" where
  "get_prop JNull k = Inl (TypeError k)"
| "get_prop (JObj kvs) k = Inr (map_of kvs k)"
| "get_prop (JBool b) k = Inr None"
| "get_prop (JNum x) k = Inr None"
| "get_prop (JStr s) k = Inr None"
| "get_prop (JArr xs) k = Inr None"

text \<open>
  \<^verbatim>\<open>nodes.filter(n => n.type === t)\<close>: the callback runs on the elements in
  order, and the first null element makes it throw.
\<close>

fun filter_by_type :: "string \<Rightarrow> 'n json list \<Rightarrow> js_error + 'n json list" where
  "filter_by_type t [] = Inr []"
| "filter_by_type t (n # ns) =
     (case get_prop n ''type'' of
        Inl e \<Rightarrow> Inl e
      | Inr ty \<Rightarrow>
          (case filter_by_type t ns of
             Inl e \<Rightarrow> Inl e
           | Inr rest \<Rightarrow> Inr (if ty = Some (JStr t) then n # rest else rest)))"

definition splitVerticesAndEdges ::
  "'n json list \<Rightarrow> js_error + ('n json list \<times> 'n json list)" where
  "splitVerticesAndEdges nodes =
     (case filter_by_type ''vertex'' nodes of
        Inl e \<Rightarrow> Inl e
      | Inr vertices \<Rightarrow>
          (case filter_by_type ''edge'' nodes of
             Inl e \<Rightarrow> Inl e
           | Inr edges \<Rightarrow> Inr (vertices, edges)))"

subsection \<open>Force nodes, links and the id index\<close>

definition maxNodes :: nat where
  "maxNodes = 300"

definition maxEdges :: nat where
  "maxEdges = 1000"

text \<open>
  The coordinates \<^verbatim>\<open>x\<close>, \<^verbatim>\<open>y\<close> of a ForceNode are written by the
  simulation only and are left out.
\<close>

record 'n ForceNode =
  vertex :: "'n json"

record 'n ForceLink =
  edge :: "'n json"
  source :: "'n ForceNode"
  target :: "'n ForceNode"

text \<open>
  The keys of a JavaScript Map are compared by SameValueZero: undefined, null, booleans,
  numbers and strings by value, objects and arrays by reference. Every object of a parsed
  message is a fresh one, so an object read from one record is never the key stored from
  another.
\<close>

fun is_primitive :: "'n jsval \<Rightarrow> bool" where
  "is_primitive (Some (JArr xs)) = False"
| "is_primitive (Some (JObj kvs)) = False"
| "is_primitive v = True"

definition same_value_zero :: "'n jsval \<Rightarrow> 'n jsval \<Rightarrow> bool" where
  "same_value_zero a b = (is_primitive a \<and> a = b)"

type_synonym ('n, 'v) js_map = "('n jsval \<times> 'v) list"

fun map_set :: "('n, 'v) js_map \<Rightarrow> 'n jsval \<Rightarrow> 'v \<Rightarrow> ('n, 'v) js_map" where
  "map_set [] k v = [(k, v)]"
| "map_set ((k', v') # m) k v =
     (if same_value_zero k' k then (k', v) # m else (k', v') # map_set m k v)"

fun map_get :: "('n, 'v) js_map \<Rightarrow> 'n jsval \<Rightarrow> 'v option" where
  "map_get [] k = None"
| "map_get ((k', v') # m) k = (if same_value_zero k' k then Some v' else map_get m k)"

text \<open>\<^verbatim>\<open>nodes.forEach(n => nodesById.set(n.vertex.id, n))\<close>\<close>

fun index_nodes ::
  "('n, 'n ForceNode) js_map \<Rightarrow> 'n ForceNode list \<Rightarrow> js_error + ('n, 'n ForceNode) js_map" where
  "index_nodes m [] = Inr m"
| "index_nodes m (n # ns) =
     (case get_prop (vertex n) ''id'' of
        Inl e \<Rightarrow> Inl e
      | Inr k \<Rightarrow> index_nodes (map_set m k n) ns)"

text \<open>
  The loop over the edges: an edge is pushed when both lookups give a node. The links
  are built in the order of the edges.
\<close>

fun resolve_edges ::
  "('n, 'n ForceNode) js_map \<Rightarrow> 'n json list \<Rightarrow> js_error + 'n ForceLink list" where
  "resolve_edges m [] = Inr []"
| "resolve_edges m (e # es) =
     (case get_prop e ''inV'' of
        Inl err \<Rightarrow> Inl err
      | Inr i \<Rightarrow>
          (case get_prop e ''outV'' of
             Inl err \<Rightarrow> Inl err
           | Inr out \<Rightarrow>
               (case resolve_edges m es of
                  Inl err \<Rightarrow> Inl err
                | Inr links \<Rightarrow>
                    (case (map_get m i, map_get m out) of
                       (Some s, Some t) \<Rightarrow> Inr (\<lparr>edge = e, source = s, target = t\<rparr> # links)
                     | _ \<Rightarrow> Inr links))))"

text \<open>
  Lines 294 to 312 of \<^verbatim>\<open>displayGraph\<close>: the nodes of the first
  \<open>maxNodes\<close> vertices, the links of the edges that resolve, cut to \<open>maxEdges\<close>.
\<close>

definition build_graph ::
  "'n json list \<Rightarrow> 'n json list \<Rightarrow> js_error + ('n ForceNode list \<times> 'n ForceLink list)" where
  "build_graph vertices edges =
     (let nodes = map (\<lambda>v. \<lparr>vertex = v\<rparr>) (take maxNodes vertices) in
      case index_nodes [] nodes of
        Inl e \<Rightarrow> Inl e
      | Inr nodesById \<Rightarrow>
          (case resolve_edges nodesById edges of
             Inl e \<Rightarrow> Inl e
           | Inr links \<Rightarrow> Inr (nodes, take maxEdges links)))"

subsection \<open>The state of the client and of the page\<close>

text \<open>
  A force simulation of d3: the nodes and links it was given, whether its tick loop
  runs, and the number of tick listeners registered on it. The physics constants and
  the canvas size have no bearing on what follows and are left out.
\<close>

record 'n simulation =
  sim_nodes :: "'n ForceNode list"
  sim_links :: "'n ForceLink list"
  running :: bool
  tick_handlers :: nat

text \<open>
  The elements \<^verbatim>\<open>displayGraph\<close> appends: a line of class "edge" per link, a
  text of class "label" and a circle of class "vertex" per node.
\<close>

datatype 'n svg_element =
    EdgeLine "'n ForceLink"
  | LabelText "'n ForceNode"
  | VertexCircle "'n ForceNode"

text \<open>An argument of a message or of \<^verbatim>\<open>console.log\<close>.\<close>

datatype arg =
    ANum int
  | AStr string
  | AErr js_error

text \<open>
  The fields of GraphClient, the socket (the messages emitted to the host), the
  console, and the page: the class of \<^verbatim>\<open>#states\<close>, the form elements of
  \<^verbatim>\<open>htmlElements\<close>, and the svg as the list of its \<^verbatim>\<open>g\<close>
  groups, each with its elements. \<open>force\<close> is \<^verbatim>\<open>this._force\<close>: a reference
  into \<open>sims\<close>, the simulations created so far.
\<close>

record 'n client =
  port :: nat
  socket :: bool
  currentQueryId :: int
  graphView :: bool
  force :: "nat option"
  sims :: "'n simulation list"
  statesClass :: string
  jsonResults :: string
  queryError :: string
  queryInput :: string
  stats :: string
  title :: string
  graphRadio :: bool
  jsonRadio :: bool
  graphSection :: bool
  jsonSection :: bool
  svg :: "'n svg_element list list"
  emitted :: "(string \<times> arg list) list"
  console :: "arg list"

text \<open>
  What the client takes from its JavaScript environment: \<^verbatim>\<open>JSON.stringify(x, null, 2)\<close>
  and the text of an error object.
\<close>

record 'n env =
  stringify :: "'n json list \<Rightarrow> string"
  error_text :: "js_error \<Rightarrow> string"

datatype State = StEmpty | StQuerying | StError | StJsonResults | StGraphResults

datatype View = Json | Graph

record 'n PageState =
  results_queryResults :: "'n json list"
  results_edgeResults :: "'n json list"
  isQueryRunning :: bool
  runningQueryId :: int
  errorMessage :: "string option"
  query_text :: string
  view :: View

text \<open>
  A handler returns the exception it threw, if any, and the state as it left it.
\<close>

type_synonym 'n action = "'n client \<Rightarrow> js_error option \<times> 'n client"

subsection \<open>Numbers in template strings\<close>

definition digit_char :: "nat \<Rightarrow> char" where
  "digit_char d = ''0123456789'' ! (d mod 10)"

fun string_of_nat :: "nat \<Rightarrow> string" where
  "string_of_nat n =
     (if n < 10 then [digit_char n] else string_of_nat (n div 10) @ [digit_char (n mod 10)])"

declare string_of_nat.simps [simp del]

definition string_of_int :: "int \<Rightarrow> string" where
  "string_of_int i = (if i < 0 then ''-'' @ string_of_nat (nat (- i)) else string_of_nat (nat i))"

subsection \<open>Logging and messages to the host\<close>

definition logToUI :: "arg \<Rightarrow> 'n client \<Rightarrow> 'n client" where
  "logToUI a s = s\<lparr>console := console s @ [a]\<rparr>"

fun arg_text :: "'n env \<Rightarrow> arg \<Rightarrow> string" where
  "arg_text E (ANum i) = string_of_int i"
| "arg_text E (AStr a) = a"
| "arg_text E (AErr e) = error_text E e"

fun join :: "string \<Rightarrow> string list \<Rightarrow> string" where
  "join sep [] = []"
| "join sep [x] = x"
| "join sep (x # y # ys) = x @ sep @ join sep (y # ys)"

definition emitToHost :: "'n env \<Rightarrow> string \<Rightarrow> arg list \<Rightarrow> 'n client \<Rightarrow> 'n client" where
  "emitToHost E message args s =
     (let s1 = logToUI (AStr (''Message to host: '' @ message @ '' '' @ join '', '' (map (arg_text E) args))) s
      in s1\<lparr>emitted := emitted s1 @ [(message, args)]\<rparr>)"

definition log :: "'n env \<Rightarrow> arg \<Rightarrow> 'n client \<Rightarrow> 'n client" where
  "log E a s = logToUI a (if socket s then emitToHost E ''log'' [a] s else s)"

subsection \<open>The state class and the views\<close>

text \<open>
  \<^verbatim>\<open>_setState\<close> (here \<open>setState\<close>) writes the class of \<^verbatim>\<open>#states\<close>; the two
  result states also carry the class of the generic results state.
\<close>

fun state_name :: "State \<Rightarrow> string" where
  "state_name StEmpty = ''empty''"
| "state_name StQuerying = ''querying''"
| "state_name StError = ''error''"
| "state_name StJsonResults = ''json-results''"
| "state_name StGraphResults = ''graph-results''"

definition setState :: "State \<Rightarrow> 'n client \<Rightarrow> 'n client" where
  "setState state s =
     (let fullState = ''state-'' @ state_name state;
          fullState = (if state = StGraphResults \<or> state = StJsonResults
                       then fullState @ '' state-results'' else fullState)
      in s\<lparr>statesClass := fullState\<rparr>)"

text \<open>
  \<^verbatim>\<open>clearGraph\<close> removes the elements of class vertex, edge and label under the
  svg; the \<^verbatim>\<open>g\<close> groups that held them stay.
\<close>

definition clearGraph :: "'n client \<Rightarrow> 'n client" where
  "clearGraph s = s\<lparr>svg := map (\<lambda>g. []) (svg s)\<rparr>"

definition setStateEmpty :: "'n client \<Rightarrow> 'n client" where
  "setStateEmpty s = setState StEmpty s"

definition setStateQuerying :: "'n client \<Rightarrow> 'n client" where
  "setStateQuerying s = clearGraph (setState StQuerying s)"

definition setStateResults :: "bool \<Rightarrow> 'n client \<Rightarrow> 'n client" where
  "setStateResults hasGraph s = setState (if hasGraph then StGraphResults else StJsonResults) s"

text \<open>
  Both callers pass a string, for which \<^verbatim>\<open>error.message || error.toString()\<close>
  is the string itself.
\<close>

definition setStateError :: "string \<Rightarrow> 'n client \<Rightarrow> 'n client" where
  "setStateError error s = clearGraph (setState StError (s\<lparr>queryError := error\<rparr>))"

definition setView :: "'n env \<Rightarrow> 'n client \<Rightarrow> 'n client" where
  "setView E s =
     emitToHost E ''setView'' [AStr (if graphView s then ''graph'' else ''json'')]
       (s\<lparr>graphRadio := graphView s, jsonRadio := \<not> graphView s,
          graphSection := graphView s, jsonSection := \<not> graphView s\<rparr>)"

definition selectGraphView :: "'n env \<Rightarrow> 'n client \<Rightarrow> 'n client" where
  "selectGraphView E s = setView E (s\<lparr>graphView := True\<rparr>)"

definition selectJsonView :: "'n env \<Rightarrow> 'n client \<Rightarrow> 'n client" where
  "selectJsonView E s = setView E (s\<lparr>graphView := False\<rparr>)"

subsection \<open>displayGraph\<close>

text \<open>
  A d3 call inside the try block: it throws at the sites in \<open>F\<close> and has its effect
  elsewhere. \<open>seq\<close> runs statements in order and stops at the first that throws.
\<close>

definition d3_call :: "render_step set \<Rightarrow> render_step \<Rightarrow> ('n client \<Rightarrow> 'n client) \<Rightarrow> 'n action" where
  "d3_call F site f s = (if site \<in> F then (Some (RenderError site), s) else (None, f s))"

fun seq :: "'n action list \<Rightarrow> 'n action" where
  "seq [] s = (None, s)"
| "seq (a # as) s = (case a s of (None, s') \<Rightarrow> seq as s' | (Some e, s') \<Rightarrow> (Some e, s'))"

definition statsText :: "nat \<Rightarrow> nat \<Rightarrow> nat \<Rightarrow> nat \<Rightarrow> string" where
  "statsText nodes_length vertices_length links_length edges_length =
     (if nodes_length = vertices_length \<and> links_length = edges_length
      then ''Displaying all '' @ string_of_nat nodes_length @ '' vertices and ''
             @ string_of_nat links_length @ '' edges''
      else ''Displaying '' @ string_of_nat nodes_length @ '' of '' @ string_of_nat vertices_length
             @ '' vertices and '' @ string_of_nat links_length @ '' of ''
             @ string_of_nat edges_length @ '' edges'')"

text \<open>
  A call on the simulation at \<open>i\<close>, and the append of elements to the group at \<open>g\<close>.
  Where they are used the simulation and the group exist: \<open>i\<close> is
  \<^verbatim>\<open>this._force\<close> or the simulation just created, \<open>g\<close> the group just appended.
\<close>

definition update_sim :: "nat \<Rightarrow> ('n simulation \<Rightarrow> 'n simulation) \<Rightarrow> 'n client \<Rightarrow> 'n client" where
  "update_sim i f s = (if i < length (sims s) then s\<lparr>sims := (sims s)[i := f (sims s ! i)]\<rparr> else s)"

definition append_elements :: "nat \<Rightarrow> 'n svg_element list \<Rightarrow> 'n client \<Rightarrow> 'n client" where
  "append_elements g els s =
     (if g < length (svg s) then s\<lparr>svg := (svg s)[g := (svg s ! g) @ els]\<rparr> else s)"

text \<open>
  The body of the try block. \<open>g\<close> is the group appended to the svg (the local
  \<^verbatim>\<open>svg\<close> after \<^verbatim>\<open>.append("g")\<close>), \<open>f\<close> the simulation created (the local
  \<^verbatim>\<open>force\<close>).
\<close>

definition displayGraph_try ::
  "render_step set \<Rightarrow> 'n json list \<Rightarrow> 'n json list \<Rightarrow> 'n action" where
  "displayGraph_try F vertices edges s =
     (let s1 = clearGraph s in
      case build_graph vertices edges of
        Inl e \<Rightarrow> (Some e, s1)
      | Inr (nodes, links) \<Rightarrow>
          (let g = length (svg s1); f = length (sims s1) in
           seq [
             d3_call F AtStatsText (\<lambda>s. s\<lparr>stats :=
               statsText (length nodes) (length vertices) (length links) (length edges)\<rparr>),
             (\<lambda>s. case force s of
                     None \<Rightarrow> (None, s)
                   | Some old \<Rightarrow> d3_call F AtForceStop (update_sim old (\<lambda>m. m\<lparr>running := False\<rparr>)) s),
             d3_call F AtForceCreate (\<lambda>s. s\<lparr>
               sims := sims s @ [\<lparr>sim_nodes = nodes, sim_links = links,
                                  running = False, tick_handlers = 0\<rparr>],
               force := Some f\<rparr>),
             d3_call F AtForceConfig (\<lambda>s. s),
             d3_call F AtSvgGroup (\<lambda>s. s\<lparr>svg := svg s @ [[]]\<rparr>),
             d3_call F AtEdgeLines (append_elements g (map EdgeLine links)),
             d3_call F AtForceDrag (\<lambda>s. s),
             d3_call F AtLabelTexts (append_elements g (map LabelText nodes)),
             d3_call F AtVertexCircles (append_elements g (map VertexCircle nodes)),
             d3_call F AtForceOnTick (update_sim f (\<lambda>m. m\<lparr>tick_handlers := 1\<rparr>)),
             d3_call F AtForceStart (update_sim f (\<lambda>m. m\<lparr>running := True\<rparr>))
           ] s1))"

text \<open>\<^verbatim>\<open>try { ... } catch (err) { this.log(err); }\<close>\<close>

definition displayGraph ::
  "'n env \<Rightarrow> render_step set \<Rightarrow> 'n json list \<Rightarrow> 'n json list \<Rightarrow> 'n action" where
  "displayGraph E F vertices edges s =
     (case displayGraph_try F vertices edges s of
        (None, s') \<Rightarrow> (None, s')
      | (Some err, s') \<Rightarrow> (None, log E (AErr err) s'))"

subsection \<open>showResults\<close>

definition showResults ::
  "'n env \<Rightarrow> render_step set \<Rightarrow> 'n json list \<Rightarrow> 'n json list \<Rightarrow> 'n action" where
  "showResults E F queryResults edgeResults s =
     (let s1 = s\<lparr>jsonResults := stringify E queryResults\<rparr>;
          s2 = logToUI (AStr (stringify E queryResults)) s1
      in case splitVerticesAndEdges queryResults of
           Inl e \<Rightarrow> (Some e, s2)
         | Inr (vertices, edges) \<Rightarrow>
             if vertices = [] then (None, setStateResults False s2)
             else displayGraph E F vertices (edges @ edgeResults) (setStateResults True s2))"

subsection \<open>The constructor and the handlers of socket messages\<close>

definition defaultQuery :: string where
  "defaultQuery = ''g.V()''"

text \<open>
  The state the constructor leaves: the first \<^verbatim>\<open>log\<close> runs before the socket is
  assigned. \<^verbatim>\<open>_graphView\<close> is unassigned until a view is selected, and is read
  only after that; the page starts as graphClient.html gives it, with an empty svg.
\<close>

definition new_client :: "nat \<Rightarrow> 'n client" where
  "new_client p =
     (let s0 = \<lparr>port = p, socket = False, currentQueryId = 0, graphView = False,
                force = None, sims = [], statesClass = [], jsonResults = [], queryError = [],
                queryInput = defaultQuery, stats = [], title = [], graphRadio = False,
                jsonRadio = False, graphSection = False, jsonSection = False, svg = [],
                emitted = [], console = []\<rparr>;
          s1 = setStateEmpty s0;
          s2 = logToUI (AStr (''Connecting on port '' @ string_of_nat p)) s1
      in s2\<lparr>socket := True\<rparr>)"

definition on_connect :: "'n env \<Rightarrow> 'n action" where
  "on_connect E s =
     (let s1 = log E (AStr (''Client connected on port '' @ string_of_nat (port s))) s
      in (None, s1\<lparr>emitted := emitted s1 @ [(''getTitle'', [])]\<rparr>))"

definition on_disconnect :: "'n env \<Rightarrow> 'n action" where
  "on_disconnect E s = (None, log E (AStr ''disconnect'') s)"

definition on_setPageState :: "'n env \<Rightarrow> render_step set \<Rightarrow> 'n PageState \<Rightarrow> 'n action" where
  "on_setPageState E F pageState s =
     (let s1 = s\<lparr>queryInput := query_text pageState\<rparr> in
      if isQueryRunning pageState
      then (None, setStateQuerying (s1\<lparr>currentQueryId := runningQueryId pageState\<rparr>))
      else
        (case (if errorMessage pageState = None \<or> errorMessage pageState = Some []
               then showResults E F (results_queryResults pageState) (results_edgeResults pageState) s1
               else (None, setStateError (the (errorMessage pageState)) s1)) of
           (Some e, s2) \<Rightarrow> (Some e, s2)
         | (None, s2) \<Rightarrow>
             (None, if view pageState = Json then selectJsonView E s2 else selectGraphView E s2)))"

definition on_setTitle :: "'n env \<Rightarrow> string \<Rightarrow> 'n action" where
  "on_setTitle E t s = (None, (log E (AStr (''Received title: '' @ t)) s)\<lparr>title := t\<rparr>)"

definition on_showResults ::
  "'n env \<Rightarrow> render_step set \<Rightarrow> int \<Rightarrow> 'n json list \<Rightarrow> 'n json list \<Rightarrow> 'n action" where
  "on_showResults E F queryId queryResults edgeResults s =
     (let s1 = log E (AStr (''Received results for query '' @ string_of_int queryId @ '' - ''
                 @ string_of_nat (length queryResults) @ '' data points, plus ''
                 @ string_of_nat (length edgeResults) @ '' edges'')) s
      in if queryId \<noteq> currentQueryId s1
         then (None, log E (AStr ''  Ignoring results, out of date'') s1)
         else showResults E F queryResults edgeResults s1)"

definition on_showQueryError :: "'n env \<Rightarrow> int \<Rightarrow> string \<Rightarrow> 'n action" where
  "on_showQueryError E queryId error s =
     (let s1 = log E (AStr (''Received error for query '' @ string_of_int queryId @ '' - '' @ error)) s
      in if queryId \<noteq> currentQueryId s1
         then (None, log E (AStr ''  Ignoring error, out of date'') s1)
         else (None, setStateError error s1))"

subsection \<open>The public methods\<close>

definition getPageState :: "'n env \<Rightarrow> 'n client \<Rightarrow> 'n client" where
  "getPageState E s = emitToHost E ''getPageState'' [] s"

definition query :: "'n env \<Rightarrow> string \<Rightarrow> 'n client \<Rightarrow> 'n client" where
  "query E gremlin s =
     (let s1 = s\<lparr>currentQueryId := currentQueryId s + 1\<rparr>;
          s2 = emitToHost E ''query'' [ANum (currentQueryId s1), AStr gremlin] s1
      in setStateQuerying s2)"

definition setQuery :: "'n env \<Rightarrow> string \<Rightarrow> 'n client \<Rightarrow> 'n client" where
  "setQuery E q s = emitToHost E ''setQuery'' [AStr q] s"

subsection \<open>Runs of the client\<close>

text \<open>
  What can happen to a client once constructed: a message from the host or a call of a
  public method. An exception that leaves a handler reaches \<^verbatim>\<open>window.onerror\<close>,
  which logs it; the client then goes on with the state the handler left.
\<close>

datatype 'n event =
    Connect
  | Disconnect
  | SetPageState "'n PageState"
  | SetTitle string
  | ShowResults int "'n json list" "'n json list"
  | ShowQueryError int string
  | CallGetPageState
  | CallQuery string
  | CallSelectGraphView
  | CallSelectJsonView
  | CallSetQuery string

fun handle :: "'n env \<Rightarrow> render_step set \<Rightarrow> 'n event \<Rightarrow> 'n action" where
  "handle E F Connect s = on_connect E s"
| "handle E F Disconnect s = on_disconnect E s"
| "handle E F (SetPageState pageState) s = on_setPageState E F pageState s"
| "handle E F (SetTitle t) s = on_setTitle E t s"
| "handle E F (ShowResults queryId queryResults edgeResults) s =
     on_showResults E F queryId queryResults edgeResults s"
| "handle E F (ShowQueryError queryId error) s = on_showQueryError E queryId error s"
| "handle E F CallGetPageState s = (None, getPageState E s)"
| "handle E F (CallQuery gremlin) s = (None, query E gremlin s)"
| "handle E F CallSelectGraphView s = (None, selectGraphView E s)"
| "handle E F CallSelectJsonView s = (None, selectJsonView E s)"
| "handle E F (CallSetQuery q) s = (None, setQuery E q s)"

definition dispatch :: "'n env \<Rightarrow> render_step set \<Rightarrow> 'n event \<Rightarrow> 'n client \<Rightarrow> 'n client" where
  "dispatch E F ev s =
     (case handle E F ev s of
        (None, s') \<Rightarrow> s'
      | (Some e, s') \<Rightarrow> logToUI (AStr (''ERROR: '' @ error_text E e)) s')"

text \<open>A run: the events in order, each with the d3 sites that fail during it.\<close>

fun run :: "'n env \<Rightarrow> (render_step set \<times> 'n event) list \<Rightarrow> 'n client \<Rightarrow> 'n client" where
  "run E [] s = s"
| "run E ((F, ev) # evs) s = run E evs (dispatch E F ev s)"

subsection \<open>What is on the page, and the notions the properties are stated with\<close>

text \<open>The elements of each kind under the svg, over all its groups.\<close>

fun link_of :: "'n svg_element \<Rightarrow> 'n ForceLink option" where
  "link_of (EdgeLine l) = Some l"
| "link_of (LabelText n) = None"
| "link_of (VertexCircle n) = None"

fun label_of :: "'n svg_element \<Rightarrow> 'n ForceNode option" where
  "label_of (EdgeLine l) = None"
| "label_of (LabelText n) = Some n"
| "label_of (VertexCircle n) = None"

fun circle_of :: "'n svg_element \<Rightarrow> 'n ForceNode option" where
  "circle_of (EdgeLine l) = None"
| "circle_of (LabelText n) = None"
| "circle_of (VertexCircle n) = Some n"

definition rendered_links :: "'n client \<Rightarrow> 'n ForceLink list" where
  "rendered_links s = List.map_filter link_of (concat (svg s))"

definition rendered_labels :: "'n client \<Rightarrow> 'n ForceNode list" where
  "rendered_labels s = List.map_filter label_of (concat (svg s))"

definition rendered_nodes :: "'n client \<Rightarrow> 'n ForceNode list" where
  "rendered_nodes s = List.map_filter circle_of (concat (svg s))"

text \<open>A record whose \<^verbatim>\<open>type\<close> is exactly the string \<open>t\<close>.\<close>

definition has_type :: "string \<Rightarrow> 'n json \<Rightarrow> bool" where
  "has_type t n = (get_prop n ''type'' = Inr (Some (JStr t)))"

text \<open>
  An endpoint id resolves to a vertex of \<open>vs\<close> when some vertex of \<open>vs\<close> has that
  id, compared as a Map key. An edge can be drawn over \<open>vs\<close> when its \<^verbatim>\<open>inV\<close> and its
  \<^verbatim>\<open>outV\<close> both resolve.
\<close>

definition resolves :: "'n json list \<Rightarrow> 'n jsval \<Rightarrow> bool" where
  "resolves vs k = list_ex (\<lambda>v. get_prop v ''id'' = Inr k \<and> is_primitive k) vs"

definition endpoints_survive :: "'n json list \<Rightarrow> 'n json \<Rightarrow> bool" where
  "endpoints_survive vs e =
     (case get_prop e ''inV'' of
        Inl err \<Rightarrow> False
      | Inr i \<Rightarrow>
          (case get_prop e ''outV'' of
             Inl err \<Rightarrow> False
           | Inr out \<Rightarrow> resolves vs i \<and> resolves vs out))"

text \<open>No vertex of \<open>vs\<close> has the id \<open>k\<close>.\<close>

definition absent_id :: "'n json list \<Rightarrow> 'n jsval \<Rightarrow> bool" where
  "absent_id vs k = (\<not> list_ex (\<lambda>v. get_prop v ''id'' = Inr k) vs)"

text \<open>Both endpoints of an edge are found in an index.\<close>

definition both_found :: "('n, 'v) js_map \<Rightarrow> 'n json \<Rightarrow> bool" where
  "both_found m e =
     (case get_prop e ''inV'' of
        Inl err \<Rightarrow> False
      | Inr i \<Rightarrow>
          (case get_prop e ''outV'' of
             Inl err \<Rightarrow> False
           | Inr out \<Rightarrow> map_get m i \<noteq> None \<and> map_get m out \<noteq> None))"

text \<open>The simulations after \<^verbatim>\<open>this._force.stop()\<close>, when there is a force.\<close>

definition stop_old :: "'n client \<Rightarrow> 'n simulation list" where
  "stop_old s =
     (case force s of
        None \<Rightarrow> sims s
      | Some old \<Rightarrow>
          if old < length (sims s) then (sims s)[old := (sims s ! old)\<lparr>running := False\<rparr>]
          else sims s)"

text \<open>
  The simulations whose tick loop runs, and the invariant of the client: a simulation
  that runs is the one \<^verbatim>\<open>this._force\<close> refers to.
\<close>

definition active_sims :: "'n client \<Rightarrow> 'n simulation list" where
  "active_sims s = filter running (sims s)"

definition one_active :: "'n client \<Rightarrow> bool" where
  "one_active s =
     ((\<forall>i < length (sims s). running (sims s ! i) \<longrightarrow> force s = Some i) \<and>
      (\<forall>i. force s = Some i \<longrightarrow> i < length (sims s)))"

text \<open>
  The page is in the querying or in the error state; and the invariant that no graph
  element is under the svg when it is.
\<close>

definition querying_or_error :: "'n client \<Rightarrow> bool" where
  "querying_or_error s = (statesClass s = ''state-querying'' \<or> statesClass s = ''state-error'')"

definition cleared_when_querying :: "'n client \<Rightarrow> bool" where
  "cleared_when_querying s = (querying_or_error s \<longrightarrow> concat (svg s) = [])"

text \<open>
  What the page displays of a query: the state class, the JSON text, the error text,
  the stats line and the svg.
\<close>

definition displayed :: "'n client \<Rightarrow> string \<times> string \<times> string \<times> string \<times> 'n svg_element list list" where
  "displayed s = (statesClass s, jsonResults s, queryError s, stats s, svg s)"

text \<open>
  An element drawn from the vertices \<open>V\<close> and the edges \<open>Es\<close>: a line of one of the
  edges, a label or a circle of one of the vertices.
\<close>

fun drawn_from :: "'n json list \<Rightarrow> 'n json list \<Rightarrow> 'n svg_element \<Rightarrow> bool" where
  "drawn_from V Es (EdgeLine l) = (edge l \<in> set Es)"
| "drawn_from V Es (LabelText n) = (vertex n \<in> set V)"
| "drawn_from V Es (VertexCircle n) = (vertex n \<in> set V)"

subsection \<open>Example data\<close>

definition example_env :: "nat env" where
  "example_env = \<lparr>stringify = (\<lambda>rs. ''[...]''), error_text = (\<lambda>e. ''Error'')\<rparr>"

definition vertex_a :: "nat json" where
  "vertex_a = JObj [(''id'', JStr ''a''), (''type'', JStr ''vertex'')]"

definition vertex_b :: "nat json" where
  "vertex_b = JObj [(''id'', JStr ''b''), (''type'', JStr ''vertex'')]"

definition edge_e1 :: "nat json" where
  "edge_e1 = JObj [(''id'', JStr ''e1''), (''type'', JStr ''edge''),
                   (''inV'', JStr ''a''), (''outV'', JStr ''b'')]"

text \<open>An edge to a vertex that is not in the result.\<close>

definition edge_e2 :: "nat json" where
  "edge_e2 = JObj [(''id'', JStr ''e2''), (''type'', JStr ''edge''),
                   (''inV'', JStr ''a''), (''outV'', JStr ''z'')]"

text \<open>A record that is neither a vertex nor an edge.\<close>

definition record_count :: "nat json" where
  "record_count = JObj [(''count'', JNum 2)]"

text \<open>
  A client that received a graph of two vertices and one edge for its first query, and
  the same client after the user then issued a new query.
\<close>

definition example_shown :: "nat client" where
  "example_shown =
     run example_env [({}, ShowResults 0 [vertex_a, vertex_b, edge_e1] [])] (new_client 3000)"


section \<open>Properties\<close>

subsection \<open>Property access and the split of the results\<close>

lemma get_prop_Inl: "get_prop n k = Inl e \<longleftrightarrow> n = JNull \<and> e = TypeError k"
  by (cases n) auto

lemma get_prop_not_null: "n \<noteq> JNull \<Longrightarrow> \<exists>v. get_prop n k = Inr v"
  by (cases n) auto

lemma filter_by_type_ok:
  "JNull \<notin> set ns \<Longrightarrow> filter_by_type t ns = Inr (filter (has_type t) ns)"
proof (induction ns)
  case Nil
  show ?case by simp
next
  case (Cons n ns)
  then obtain v where "get_prop n ''type'' = Inr v"
    by (cases n) auto
  with Cons show ?case by (simp add: has_type_def)
qed

lemma filter_by_type_null:
  "JNull \<in> set ns \<Longrightarrow> filter_by_type t ns = Inl (TypeError ''type'')"
proof (induction ns)
  case Nil
  then show ?case by simp
next
  case (Cons n ns)
  show ?case
  proof (cases "n = JNull")
    case True
    then show ?thesis by simp
  next
    case False
    then obtain v where "get_prop n ''type'' = Inr v"
      by (cases n) auto
    with Cons False show ?thesis by simp
  qed
qed

lemma splitVerticesAndEdges_ok:
  "JNull \<notin> set ns \<Longrightarrow>
   splitVerticesAndEdges ns = Inr (filter (has_type ''vertex'') ns, filter (has_type ''edge'') ns)"
  by (simp add: splitVerticesAndEdges_def filter_by_type_ok)

lemma splitVerticesAndEdges_null:
  "JNull \<in> set ns \<Longrightarrow> splitVerticesAndEdges ns = Inl (TypeError ''type'')"
  by (simp add: splitVerticesAndEdges_def filter_by_type_null)

lemma splitVerticesAndEdges_Inr:
  assumes "splitVerticesAndEdges ns = Inr (vs, es)"
  shows "JNull \<notin> set ns \<and> vs = filter (has_type ''vertex'') ns \<and> es = filter (has_type ''edge'') ns"
proof (cases "JNull \<in> set ns")
  case True
  with assms show ?thesis by (simp add: splitVerticesAndEdges_null)
next
  case False
  with assms show ?thesis by (simp add: splitVerticesAndEdges_ok)
qed

subsection \<open>The id index and the links\<close>

lemma map_get_map_set:
  "map_get (map_set m k v) k' = (if same_value_zero k k' then Some v else map_get m k')"
  by (induction m) (auto simp: same_value_zero_def)

lemma index_nodes_found:
  "JNull \<notin> vertex ` set ns \<Longrightarrow>
   \<exists>m'. index_nodes m ns = Inr m' \<and>
     (\<forall>k. (map_get m' k \<noteq> None) = (map_get m k \<noteq> None \<or> resolves (map vertex ns) k))"
proof (induction ns arbitrary: m)
  case Nil
  show ?case by (simp add: resolves_def)
next
  case (Cons n ns)
  from Cons.prems have "vertex n \<noteq> JNull" by auto
  then obtain k0 where k0: "get_prop (vertex n) ''id'' = Inr k0"
    using get_prop_not_null by blast
  from Cons.prems have "JNull \<notin> vertex ` set ns" by auto
  from Cons.IH [OF this, of "map_set m k0 n"] obtain m' where
    m': "index_nodes (map_set m k0 n) ns = Inr m'"
    and get: "\<And>k. (map_get m' k \<noteq> None) =
      (map_get (map_set m k0 n) k \<noteq> None \<or> resolves (map vertex ns) k)"
    by blast
  have "index_nodes m (n # ns) = Inr m'"
    using k0 m' by simp
  moreover have "(map_get m' k \<noteq> None) = (map_get m k \<noteq> None \<or> resolves (map vertex (n # ns)) k)" for k
    using k0 by (auto simp add: get map_get_map_set resolves_def same_value_zero_def
        simp del: not_None_eq)
  ultimately show ?case by blast
qed

lemma index_nodes_member:
  "index_nodes m ns = Inr m' \<Longrightarrow> map_get m' k = Some n \<Longrightarrow> n \<in> set ns \<or> map_get m k = Some n"
proof (induction ns arbitrary: m)
  case Nil
  then show ?case by simp
next
  case (Cons a ns)
  then show ?case
    by (fastforce simp: map_get_map_set split: sum.splits if_splits)
qed

lemma resolve_edges_filter:
  "JNull \<notin> set es \<Longrightarrow>
   \<exists>links. resolve_edges m es = Inr links \<and> map edge links = filter (both_found m) es"
proof (induction es)
  case Nil
  show ?case by simp
next
  case (Cons e es)
  then obtain links where links: "resolve_edges m es = Inr links"
    and eq: "map edge links = filter (both_found m) es"
    by auto
  from Cons.prems have "e \<noteq> JNull" by auto
  then obtain i out where io: "get_prop e ''inV'' = Inr i" "get_prop e ''outV'' = Inr out"
    using get_prop_not_null by blast
  have "both_found m e = (map_get m i \<noteq> None \<and> map_get m out \<noteq> None)"
    using io by (simp add: both_found_def)
  then show ?case
    using links eq io by (auto split: option.splits)
qed

lemma resolve_edges_ends:
  "resolve_edges m es = Inr links \<Longrightarrow> l \<in> set links \<Longrightarrow>
   edge l \<in> set es \<and>
   (\<exists>i out. get_prop (edge l) ''inV'' = Inr i \<and> get_prop (edge l) ''outV'' = Inr out \<and>
      map_get m i = Some (source l) \<and> map_get m out = Some (target l))"
proof (induction es arbitrary: links)
  case Nil
  then show ?case by simp
next
  case (Cons e es)
  then show ?case
    by (fastforce split: sum.splits option.splits)
qed

lemma build_graph_ok:
  assumes V: "JNull \<notin> set V" and Es: "JNull \<notin> set Es"
  shows "\<exists>links. build_graph V Es = Inr (map (\<lambda>v. \<lparr>vertex = v\<rparr>) (take maxNodes V), links) \<and>
     map edge links = take maxEdges (filter (endpoints_survive (take maxNodes V)) Es)"
proof -
  let ?nodes = "map (\<lambda>v. \<lparr>vertex = v\<rparr>) (take maxNodes V)"
  have vs: "map vertex ?nodes = take maxNodes V"
    by (simp add: comp_def)
  have "JNull \<notin> vertex ` set ?nodes"
    using V by (auto dest: in_set_takeD)
  from index_nodes_found [OF this, of "[]"] obtain m' where
    m': "index_nodes [] ?nodes = Inr m'"
    and get: "\<And>k. (map_get m' k \<noteq> None) = resolves (take maxNodes V) k"
    unfolding vs by auto
  from resolve_edges_filter [OF Es, of m'] obtain links where
    links: "resolve_edges m' Es = Inr links"
    and eq: "map edge links = filter (both_found m') Es"
    by blast
  have "both_found m' = endpoints_survive (take maxNodes V)"
    by (rule ext) (simp add: both_found_def endpoints_survive_def get split: sum.splits
        del: not_None_eq)
  with eq have "map edge (take maxEdges links) =
      take maxEdges (filter (endpoints_survive (take maxNodes V)) Es)"
    by (simp only: take_map [symmetric])
  moreover have "build_graph V Es = Inr (?nodes, take maxEdges links)"
    using m' links by (simp add: build_graph_def)
  ultimately show ?thesis by blast
qed

text \<open>
  Whatever the lists hold: the nodes wrap vertices of the list, and a link's edge is one
  of the edges, its ends nodes of the graph.
\<close>

lemma build_graph_members:
  assumes "build_graph V Es = Inr (nodes, links)"
  shows "nodes = map (\<lambda>v. \<lparr>vertex = v\<rparr>) (take maxNodes V)"
    and "l \<in> set links \<Longrightarrow> edge l \<in> set Es \<and> source l \<in> set nodes \<and> target l \<in> set nodes"
proof -
  let ?nodes = "map (\<lambda>v. \<lparr>vertex = v\<rparr>) (take maxNodes V)"
  from assms obtain m' all_links where
    m': "index_nodes [] ?nodes = Inr m'"
    and al: "resolve_edges m' Es = Inr all_links"
    and n: "nodes = ?nodes" and l: "links = take maxEdges all_links"
    by (auto simp: build_graph_def Let_def split: sum.splits)
  show "nodes = ?nodes" by (rule n)
  show "edge l \<in> set Es \<and> source l \<in> set nodes \<and> target l \<in> set nodes" if "l \<in> set links"
  proof -
    from that l have "l \<in> set all_links"
      by (auto dest: in_set_takeD)
    from resolve_edges_ends [OF al this] obtain i out where
      "edge l \<in> set Es" "map_get m' i = Some (source l)" "map_get m' out = Some (target l)"
      by blast
    then show ?thesis
      using index_nodes_member [OF m'] n by fastforce
  qed
qed

subsection \<open>A render that completes\<close>

lemma d3_call_no_fault: "d3_call {} site f s = (None, f s)"
  by (simp add: d3_call_def)

lemma stop_step_no_fault:
  "(case force s of None \<Rightarrow> (None, s)
    | Some old \<Rightarrow> d3_call {} AtForceStop (update_sim old (\<lambda>m. m\<lparr>running := False\<rparr>)) s)
   = (None, s\<lparr>sims := stop_old s\<rparr>)"
  by (simp add: d3_call_def update_sim_def stop_old_def split: option.splits)

lemma append_elements_new_group:
  "svg s = gs @ [els0] \<Longrightarrow> g = length gs \<Longrightarrow>
   append_elements g els s = s\<lparr>svg := gs @ [els0 @ els]\<rparr>"
  by (simp add: append_elements_def)

lemma update_sim_new:
  "sims s = ms @ [m] \<Longrightarrow> f = length ms \<Longrightarrow> update_sim f h s = s\<lparr>sims := ms @ [h m]\<rparr>"
  by (simp add: update_sim_def)

lemma length_stop_old [simp]: "length (stop_old s) = length (sims s)"
  by (simp add: stop_old_def split: option.splits)

lemma displayGraph_try_ok:
  assumes "build_graph V Es = Inr (nodes, links)"
  shows "displayGraph_try {} V Es s =
    (None, s\<lparr>svg := map (\<lambda>g. []) (svg s) @
                 [map EdgeLine links @ map LabelText nodes @ map VertexCircle nodes],
             stats := statsText (length nodes) (length V) (length links) (length Es),
             sims := stop_old s @
                 [\<lparr>sim_nodes = nodes, sim_links = links, running = True, tick_handlers = 1\<rparr>],
             force := Some (length (sims s))\<rparr>)"
proof -
  have stop_svg: "stop_old (t\<lparr>svg := x\<rparr>) = stop_old t"
    and stop_stats: "stop_old (t\<lparr>stats := y\<rparr>) = stop_old t" for t :: "'a client" and x y
    by (simp_all add: stop_old_def split: option.splits)
  show ?thesis
    unfolding displayGraph_try_def Let_def assms sum.case prod.case
    by (simp add: d3_call_no_fault stop_step_no_fault clearGraph_def stop_svg stop_stats
        append_elements_new_group update_sim_new)
qed

lemma displayGraph_ok:
  assumes "build_graph V Es = Inr (nodes, links)"
  shows "displayGraph E {} V Es s =
    (None, s\<lparr>svg := map (\<lambda>g. []) (svg s) @
                 [map EdgeLine links @ map LabelText nodes @ map VertexCircle nodes],
             stats := statsText (length nodes) (length V) (length links) (length Es),
             sims := stop_old s @
                 [\<lparr>sim_nodes = nodes, sim_links = links, running = True, tick_handlers = 1\<rparr>],
             force := Some (length (sims s))\<rparr>)"
  by (simp add: displayGraph_def displayGraph_try_ok [OF assms])

lemma concat_cleared [simp]: "concat (map (\<lambda>g. []) gs) = []"
  by (induction gs) auto

lemma map_filter_append: "List.map_filter f (xs @ ys) = List.map_filter f xs @ List.map_filter f ys"
  by (simp add: List.map_filter_def)

lemma map_filter_links [simp]:
  "List.map_filter link_of (map EdgeLine ls) = ls"
  "List.map_filter link_of (map LabelText ns) = []"
  "List.map_filter link_of (map VertexCircle ns) = []"
  by (induction ls) (simp_all add: List.map_filter_def comp_def)

lemma map_filter_labels [simp]:
  "List.map_filter label_of (map EdgeLine ls) = []"
  "List.map_filter label_of (map LabelText ns) = ns"
  "List.map_filter label_of (map VertexCircle ns) = []"
  by (induction ns) (simp_all add: List.map_filter_def comp_def)

lemma map_filter_circles [simp]:
  "List.map_filter circle_of (map EdgeLine ls) = []"
  "List.map_filter circle_of (map LabelText ns) = []"
  "List.map_filter circle_of (map VertexCircle ns) = ns"
  by (induction ns) (simp_all add: List.map_filter_def comp_def)

text \<open>What a render of null-free lists leaves on the page.\<close>

lemma displayGraph_rendered:
  fixes E :: "'n env" and s :: "'n client"
  assumes V: "JNull \<notin> set V" and Es: "JNull \<notin> set Es"
  defines "s' \<equiv> snd (displayGraph E {} V Es s)"
  shows "fst (displayGraph_try {} V Es s) = None"
    and "map vertex (rendered_nodes s') = take maxNodes V"
    and "rendered_labels s' = rendered_nodes s'"
    and "map edge (rendered_links s') = take maxEdges (filter (endpoints_survive (take maxNodes V)) Es)"
    and "stats s' = statsText (length (rendered_nodes s')) (length V)
                      (length (rendered_links s')) (length Es)"
    and "console s' = console s" and "emitted s' = emitted s"
proof -
  define nodes where "nodes = map (\<lambda>v. \<lparr>vertex = v\<rparr>) (take maxNodes V)"
  have n: "map vertex nodes = take maxNodes V"
    by (simp add: nodes_def comp_def)
  from build_graph_ok [OF V Es] obtain links where
    b: "build_graph V Es = Inr (nodes, links)"
    and l: "map edge links = take maxEdges (filter (endpoints_survive (take maxNodes V)) Es)"
    unfolding nodes_def by blast
  show "fst (displayGraph_try {} V Es s) = None"
    by (simp add: displayGraph_try_ok [OF b])
  show "map vertex (rendered_nodes s') = take maxNodes V"
    by (simp add: s'_def displayGraph_ok [OF b] rendered_nodes_def map_filter_append n)
  show "rendered_labels s' = rendered_nodes s'"
    by (simp add: s'_def displayGraph_ok [OF b] rendered_nodes_def rendered_labels_def
        map_filter_append)
  show "map edge (rendered_links s') = take maxEdges (filter (endpoints_survive (take maxNodes V)) Es)"
    by (simp add: s'_def displayGraph_ok [OF b] rendered_links_def map_filter_append l)
  show "stats s' = statsText (length (rendered_nodes s')) (length V)
                      (length (rendered_links s')) (length Es)"
    by (simp add: s'_def displayGraph_ok [OF b] rendered_nodes_def rendered_links_def
        map_filter_append)
  show "console s' = console s" and "emitted s' = emitted s"
    by (simp_all add: s'_def displayGraph_ok [OF b])
qed

subsection \<open>The caps on nodes and links\<close>

lemma displayGraph_lengths:
  assumes "JNull \<notin> set V" and "JNull \<notin> set Es"
  shows "length (rendered_nodes (snd (displayGraph E {} V Es s))) = min (length V) 300"
    and "length (rendered_links (snd (displayGraph E {} V Es s)))
        = min (length (filter (endpoints_survive (take 300 V)) Es)) 1000"
    and "map edge (rendered_links (snd (displayGraph E {} V Es s)))
        = take 1000 (filter (endpoints_survive (take 300 V)) Es)"
proof -
  let ?s' = "snd (displayGraph E {} V Es s)"
  have n: "map vertex (rendered_nodes ?s') = take 300 V"
    and l: "map edge (rendered_links ?s') = take 1000 (filter (endpoints_survive (take 300 V)) Es)"
    using displayGraph_rendered(2,4) [OF assms, of E s] by (simp_all add: maxNodes_def maxEdges_def)
  have "length (rendered_nodes ?s') = length (map vertex (rendered_nodes ?s'))"
    by simp
  also have "\<dots> = min (length V) 300"
    unfolding n by simp
  finally have 1: "length (rendered_nodes ?s') = min (length V) 300" .
  have "length (rendered_links ?s') = length (map edge (rendered_links ?s'))"
    by simp
  also have "\<dots> = min (length (filter (endpoints_survive (take 300 V)) Es)) 1000"
    unfolding l by simp
  finally have 2: "length (rendered_links ?s')
      = min (length (filter (endpoints_survive (take 300 V)) Es)) 1000" .
  from 1 2 l show "length (rendered_nodes ?s') = min (length V) 300"
    and "length (rendered_links ?s')
        = min (length (filter (endpoints_survive (take 300 V)) Es)) 1000"
    and "map edge (rendered_links ?s')
        = take 1000 (filter (endpoints_survive (take 300 V)) Es)"
    by simp_all
qed


text \<open>
  \<^bold>\<open>C2\<close>. For every list \<open>V\<close> of vertices (length \<open>N\<close>) and every list
  \<open>Es\<close> of edges passed to \<^verbatim>\<open>displayGraph\<close> (records: no element is null), when
  no d3 call throws, the number of rendered nodes is \<open>min N 300\<close> and the number of
  rendered links is \<open>min K 1000\<close>, where \<open>K\<close> counts the edges of \<open>Es\<close> whose
  \<^verbatim>\<open>inV\<close> and \<^verbatim>\<open>outV\<close> both resolve to one of the first 300 vertices. The cap
  on the links cuts the list of the edges that resolve: it is applied after the
  resolution.
\<close>

theorem displayGraph_counts:
  assumes "JNull \<notin> set V" and "JNull \<notin> set Es"
  shows "length (rendered_nodes (snd (displayGraph E {} V Es s))) = min (length V) 300
    \<and> length (rendered_links (snd (displayGraph E {} V Es s)))
        = min (length (filter (endpoints_survive (take 300 V)) Es)) 1000
    \<and> map edge (rendered_links (snd (displayGraph E {} V Es s)))
        = take 1000 (filter (endpoints_survive (take 300 V)) Es)"
  using displayGraph_lengths [OF assms, of E s] by simp

lemma example_build:
  "build_graph [vertex_a, vertex_b] [edge_e1, edge_e2] =
     Inr ([\<lparr>vertex = vertex_a\<rparr>, \<lparr>vertex = vertex_b\<rparr>],
          [\<lparr>edge = edge_e1, source = \<lparr>vertex = vertex_a\<rparr>, target = \<lparr>vertex = vertex_b\<rparr>\<rparr>])"
  by (simp add: build_graph_def maxNodes_def maxEdges_def vertex_a_def vertex_b_def edge_e1_def
      edge_e2_def same_value_zero_def)

theorem displayGraph_counts_witness:
  "JNull \<notin> set [vertex_a, vertex_b] \<and> JNull \<notin> set [edge_e1, edge_e2]
   \<and> length (rendered_nodes (snd (displayGraph example_env {} [vertex_a, vertex_b]
        [edge_e1, edge_e2] (new_client 3000)))) = 2
   \<and> map edge (rendered_links (snd (displayGraph example_env {} [vertex_a, vertex_b]
        [edge_e1, edge_e2] (new_client 3000)))) = [edge_e1]"
proof -
  have a: "JNull \<notin> set [vertex_a, vertex_b]" and b: "JNull \<notin> set [edge_e1, edge_e2]"
    by (simp_all add: vertex_a_def vertex_b_def edge_e1_def edge_e2_def)
  have c: "endpoints_survive [vertex_a, vertex_b] edge_e1"
    "\<not> endpoints_survive [vertex_a, vertex_b] edge_e2"
    by (simp_all add: endpoints_survive_def resolves_def vertex_a_def vertex_b_def edge_e1_def
        edge_e2_def)
  show ?thesis
    using displayGraph_counts [OF a b, of example_env "new_client 3000"] a b
    by (simp add: c)
qed

subsection \<open>Edges whose endpoints are not drawn\<close>

lemma absent_not_resolves: "absent_id vs k \<Longrightarrow> \<not> resolves vs k"
  by (auto simp: absent_id_def resolves_def list_ex_iff)

text \<open>
  \<^bold>\<open>C3\<close>. For every edge passed to \<^verbatim>\<open>displayGraph\<close> whose \<^verbatim>\<open>inV\<close> or
  \<^verbatim>\<open>outV\<close> is the id of none of the first 300 vertices, no rendered link has that
  edge; the body of the try block throws nothing, \<^verbatim>\<open>displayGraph\<close> returns normally
  and nothing is logged.
\<close>

theorem dangling_edge_dropped:
  assumes "JNull \<notin> set V" and "JNull \<notin> set Es" and "e \<in> set Es"
    and "get_prop e ''inV'' = Inr i" and "get_prop e ''outV'' = Inr out"
    and "absent_id (take 300 V) i \<or> absent_id (take 300 V) out"
  shows "e \<notin> edge ` set (rendered_links (snd (displayGraph E {} V Es s)))
    \<and> fst (displayGraph_try {} V Es s) = None
    \<and> fst (displayGraph E {} V Es s) = None
    \<and> console (snd (displayGraph E {} V Es s)) = console s
    \<and> emitted (snd (displayGraph E {} V Es s)) = emitted s"
proof -
  let ?s' = "snd (displayGraph E {} V Es s)"
  have "\<not> endpoints_survive (take 300 V) e"
    using assms(4-6) by (auto simp: endpoints_survive_def dest: absent_not_resolves)
  then have "e \<notin> set (take 1000 (filter (endpoints_survive (take 300 V)) Es))"
    by (auto dest: in_set_takeD)
  moreover have "map edge (rendered_links ?s') = take 1000 (filter (endpoints_survive (take 300 V)) Es)"
    using displayGraph_rendered(4) [OF assms(1,2), of E s] by (simp add: maxNodes_def maxEdges_def)
  ultimately have "e \<notin> set (map edge (rendered_links ?s'))"
    by simp
  then have "e \<notin> edge ` set (rendered_links ?s')"
    by simp
  moreover have "fst (displayGraph E {} V Es s) = None"
    by (simp add: displayGraph_def split: prod.splits option.splits)
  ultimately show ?thesis
    using displayGraph_rendered(1) [OF assms(1,2), of s]
      displayGraph_rendered(6,7) [OF assms(1,2), of E s] by simp
qed

theorem dangling_edge_dropped_witness:
  "JNull \<notin> set [vertex_a, vertex_b] \<and> JNull \<notin> set [edge_e1, edge_e2]
   \<and> edge_e2 \<in> set [edge_e1, edge_e2]
   \<and> get_prop edge_e2 ''inV'' = Inr (Some (JStr ''a''))
   \<and> get_prop edge_e2 ''outV'' = Inr (Some (JStr ''z''))
   \<and> absent_id (take 300 [vertex_a, vertex_b]) (Some (JStr ''z''))
   \<and> edge_e2 \<notin> edge ` set (rendered_links (snd (displayGraph example_env {}
         [vertex_a, vertex_b] [edge_e1, edge_e2] (new_client 3000))))
   \<and> fst (displayGraph_try {} [vertex_a, vertex_b] [edge_e1, edge_e2]
         (new_client 3000 :: nat client)) = None"
proof -
  have a: "JNull \<notin> set [vertex_a, vertex_b]" and b: "JNull \<notin> set [edge_e1, edge_e2]"
    by (simp_all add: vertex_a_def vertex_b_def edge_e1_def edge_e2_def)
  have c: "edge_e2 \<in> set [edge_e1, edge_e2]" by simp
  have i: "get_prop edge_e2 ''inV'' = Inr (Some (JStr ''a''))"
    and out: "get_prop edge_e2 ''outV'' = Inr (Some (JStr ''z''))"
    by (simp_all add: edge_e2_def)
  have z: "absent_id (take 300 [vertex_a, vertex_b]) (Some (JStr ''z''))"
    by (simp add: absent_id_def vertex_a_def vertex_b_def)
  from z have d: "absent_id (take 300 [vertex_a, vertex_b]) (Some (JStr ''a''))
      \<or> absent_id (take 300 [vertex_a, vertex_b]) (Some (JStr ''z''))" ..
  show ?thesis
    using dangling_edge_dropped [OF a b c i out d, of example_env "new_client 3000"] a b c i out z
    by blast
qed

subsection \<open>The stats line\<close>

text \<open>
  \<^bold>\<open>C5\<close>. With \<open>n\<close> nodes rendered of \<open>N\<close> vertices and \<open>l\<close> links rendered
  of \<open>L\<close> edges, the stats line reads "Displaying all n vertices and l edges" when
  \<open>n = N\<close> and \<open>l = L\<close>, and "Displaying n of N vertices and l of L edges" otherwise,
  each kind with its own two counts. For 2 vertices and 1 edge that resolves it reads
  "Displaying all 2 vertices and 1 edges"; for 350 vertices and no edge it reads
  "Displaying 300 of 350 vertices and 0 of 0 edges".
\<close>

theorem stats_line:
  assumes "JNull \<notin> set V" and "JNull \<notin> set Es"
  shows "(let n = min (length V) 300;
              l = min (length (filter (endpoints_survive (take 300 V)) Es)) 1000
          in stats (snd (displayGraph E {} V Es s)) =
             (if n = length V \<and> l = length Es
              then ''Displaying all '' @ string_of_nat n @ '' vertices and ''
                     @ string_of_nat l @ '' edges''
              else ''Displaying '' @ string_of_nat n @ '' of '' @ string_of_nat (length V)
                     @ '' vertices and '' @ string_of_nat l @ '' of ''
                     @ string_of_nat (length Es) @ '' edges''))
    \<and> (length V = 2 \<and> length Es = 1 \<and> list_all (endpoints_survive V) Es \<longrightarrow>
          stats (snd (displayGraph E {} V Es s)) = ''Displaying all 2 vertices and 1 edges'')
    \<and> (length V = 350 \<and> Es = [] \<longrightarrow>
          stats (snd (displayGraph E {} V Es s))
            = ''Displaying 300 of 350 vertices and 0 of 0 edges'')"
proof -
  let ?s' = "snd (displayGraph E {} V Es s)"
  let ?n = "min (length V) 300"
  let ?l = "min (length (filter (endpoints_survive (take 300 V)) Es)) 1000"
  have n: "length (rendered_nodes ?s') = ?n" and l: "length (rendered_links ?s') = ?l"
    using displayGraph_lengths(1,2) [OF assms, of E s] by simp_all
  have st: "stats ?s' = statsText ?n (length V) ?l (length Es)"
    using displayGraph_rendered(5) [OF assms, of E s] by (simp only: n l)
  have ex1: "statsText 2 2 1 1 = ''Displaying all 2 vertices and 1 edges''"
    and ex2: "statsText 300 350 0 0 = ''Displaying 300 of 350 vertices and 0 of 0 edges''"
    by (simp_all add: statsText_def string_of_nat.simps digit_char_def)
  have 1: "stats ?s' =
     (if ?n = length V \<and> ?l = length Es
      then ''Displaying all '' @ string_of_nat ?n @ '' vertices and ''
             @ string_of_nat ?l @ '' edges''
      else ''Displaying '' @ string_of_nat ?n @ '' of '' @ string_of_nat (length V)
             @ '' vertices and '' @ string_of_nat ?l @ '' of ''
             @ string_of_nat (length Es) @ '' edges'')"
    unfolding st statsText_def by (rule refl)
  have 2: "stats ?s' = ''Displaying all 2 vertices and 1 edges''"
    if "length V = 2" "length Es = 1" "list_all (endpoints_survive V) Es"
  proof -
    have "filter (endpoints_survive (take 300 V)) Es = Es"
      using that by (simp add: list_all_iff)
    then have "statsText ?n (length V) ?l (length Es) = statsText 2 2 1 1"
      using that by simp
    then show ?thesis by (simp only: st ex1)
  qed
  have 3: "stats ?s' = ''Displaying 300 of 350 vertices and 0 of 0 edges''"
    if "length V = 350" "Es = []"
  proof -
    have "statsText ?n (length V) ?l (length Es) = statsText 300 350 0 0"
      using that by simp
    then show ?thesis by (simp only: st ex2)
  qed
  from 1 2 3 show ?thesis
    unfolding Let_def by blast
qed

theorem stats_line_witness:
  "JNull \<notin> set [vertex_a, vertex_b] \<and> JNull \<notin> set [edge_e1]
   \<and> length [vertex_a, vertex_b] = 2 \<and> length [edge_e1] = 1
   \<and> list_all (endpoints_survive [vertex_a, vertex_b]) [edge_e1]
   \<and> stats (snd (displayGraph example_env {} [vertex_a, vertex_b] [edge_e1] (new_client 3000)))
       = ''Displaying all 2 vertices and 1 edges''
   \<and> JNull \<notin> set (replicate 350 vertex_a) \<and> length (replicate 350 vertex_a) = 350
   \<and> stats (snd (displayGraph example_env {} (replicate 350 vertex_a) [] (new_client 3000)))
       = ''Displaying 300 of 350 vertices and 0 of 0 edges''"
proof -
  have a: "JNull \<notin> set [vertex_a, vertex_b]" and b: "JNull \<notin> set [edge_e1]"
    and c: "JNull \<notin> set (replicate 350 vertex_a)" and d: "JNull \<notin> set ([] :: nat json list)"
    by (simp_all add: vertex_a_def vertex_b_def edge_e1_def)
  have e: "list_all (endpoints_survive [vertex_a, vertex_b]) [edge_e1]"
    by (simp add: endpoints_survive_def resolves_def vertex_a_def vertex_b_def edge_e1_def)
  have la: "length [vertex_a, vertex_b] = 2" and lb: "length [edge_e1] = 1"
    and lc: "length (replicate 350 vertex_a) = 350"
    by simp_all
  have 1: "stats (snd (displayGraph example_env {} [vertex_a, vertex_b] [edge_e1] (new_client 3000)))
       = ''Displaying all 2 vertices and 1 edges''"
    using stats_line [OF a b, of example_env "new_client 3000", THEN conjunct2, THEN conjunct1]
      la lb e by blast
  have 2: "stats (snd (displayGraph example_env {} (replicate 350 vertex_a) [] (new_client 3000)))
       = ''Displaying 300 of 350 vertices and 0 of 0 edges''"
    using stats_line [OF c d, of example_env "new_client 3000", THEN conjunct2, THEN conjunct2]
      lc by blast
  from a b c e la lb lc 1 2 show ?thesis by blast
qed

subsection \<open>A render in which d3 calls may throw\<close>

lemma seq_invariant:
  assumes "\<And>a t. a \<in> set as \<Longrightarrow> I t \<Longrightarrow> I (snd (a t))" and "I s"
  shows "I (snd (seq as s))"
  using assms
proof (induction as arbitrary: s)
  case Nil
  then show ?case by simp
next
  case (Cons a as)
  have step: "I (snd (a s))"
    using Cons.prems by simp
  show ?case
  proof (cases "a s")
    case (Pair r s')
    with step have s': "I s'" by simp
    show ?thesis
    proof (cases r)
      case None
      with Pair have "seq (a # as) s = seq as s'" by simp
      moreover have "I (snd (seq as s'))"
        using Cons.prems(1) s' by (intro Cons.IH) auto
      ultimately show ?thesis by simp
    next
      case (Some e)
      with Pair s' show ?thesis by simp
    qed
  qed
qed

lemma d3_call_invariant:
  "I s \<Longrightarrow> (site \<notin> F \<Longrightarrow> I (f s)) \<Longrightarrow> I (snd (d3_call F site f s))"
  by (simp add: d3_call_def)

text \<open>
  A property that holds once the graph is cleared and that every statement of the try
  block keeps, holds when the block is left, normally or by an exception.
\<close>

lemma displayGraph_try_invariant:
  assumes init: "I (clearGraph s)"
    and stat: "\<And>t x. I t \<Longrightarrow> I (t\<lparr>stats := x\<rparr>)"
    and stop: "\<And>t old. I t \<Longrightarrow> I (update_sim old (\<lambda>m. m\<lparr>running := False\<rparr>) t)"
    and create: "\<And>t nodes links. build_graph V Es = Inr (nodes, links) \<Longrightarrow> I t \<Longrightarrow>
        I (t\<lparr>sims := sims t @ [\<lparr>sim_nodes = nodes, sim_links = links,
                                  running = False, tick_handlers = 0\<rparr>],
             force := Some (length (sims s))\<rparr>)"
    and group: "\<And>t. I t \<Longrightarrow> I (t\<lparr>svg := svg t @ [[]]\<rparr>)"
    and elements: "\<And>t nodes links els. build_graph V Es = Inr (nodes, links) \<Longrightarrow>
        els = map EdgeLine links \<or> els = map LabelText nodes \<or> els = map VertexCircle nodes \<Longrightarrow>
        I t \<Longrightarrow> I (append_elements (length (svg s)) els t)"
    and sim: "\<And>t h. I t \<Longrightarrow> I (update_sim (length (sims s)) h t)"
  shows "I (snd (displayGraph_try F V Es s))"
proof (cases "build_graph V Es")
  case (Inl e)
  then show ?thesis
    using init by (simp add: displayGraph_try_def)
next
  case (Inr p)
  obtain nodes links where p: "p = (nodes, links)"
    by (cases p)
  note b = Inr [unfolded p]
  define steps :: "'a action list" where "steps = [
     d3_call F AtStatsText (\<lambda>s. s\<lparr>stats :=
               statsText (length nodes) (length V) (length links) (length Es)\<rparr>),
     (\<lambda>s. case force s of
                     None \<Rightarrow> (None, s)
                   | Some old \<Rightarrow> d3_call F AtForceStop (update_sim old (\<lambda>m. m\<lparr>running := False\<rparr>)) s),
     d3_call F AtForceCreate (\<lambda>t. t\<lparr>
               sims := sims t @ [\<lparr>sim_nodes = nodes, sim_links = links,
                                  running = False, tick_handlers = 0\<rparr>],
               force := Some (length (sims s))\<rparr>),
     d3_call F AtForceConfig (\<lambda>s. s),
     d3_call F AtSvgGroup (\<lambda>s. s\<lparr>svg := svg s @ [[]]\<rparr>),
     d3_call F AtEdgeLines (append_elements (length (svg s)) (map EdgeLine links)),
     d3_call F AtForceDrag (\<lambda>s. s),
     d3_call F AtLabelTexts (append_elements (length (svg s)) (map LabelText nodes)),
     d3_call F AtVertexCircles (append_elements (length (svg s)) (map VertexCircle nodes)),
     d3_call F AtForceOnTick (update_sim (length (sims s)) (\<lambda>m. m\<lparr>tick_handlers := 1\<rparr>)),
     d3_call F AtForceStart (update_sim (length (sims s)) (\<lambda>m. m\<lparr>running := True\<rparr>))]"
  have len: "length (svg (clearGraph s)) = length (svg s)"
    "length (sims (clearGraph s)) = length (sims s)"
    by (simp_all add: clearGraph_def)
  have unfold: "displayGraph_try F V Es s = seq steps (clearGraph s)"
    unfolding displayGraph_try_def Let_def b steps_def len by simp
  have "I (snd (seq steps (clearGraph s)))"
  proof (rule seq_invariant [where I = I and s = "clearGraph s", OF _ init])
    fix a t
    assume a: "a \<in> set steps" and t: "I t"
    from a consider x where "a = d3_call F AtStatsText (\<lambda>s. s\<lparr>stats := x\<rparr>)"
      | "a = (\<lambda>s. case force s of
                     None \<Rightarrow> (None, s)
                   | Some old \<Rightarrow> d3_call F AtForceStop (update_sim old (\<lambda>m. m\<lparr>running := False\<rparr>)) s)"
      | "a = d3_call F AtForceCreate (\<lambda>t. t\<lparr>
               sims := sims t @ [\<lparr>sim_nodes = nodes, sim_links = links,
                                  running = False, tick_handlers = 0\<rparr>],
               force := Some (length (sims s))\<rparr>)"
      | site where "a = d3_call F site (\<lambda>s. s)"
      | "a = d3_call F AtSvgGroup (\<lambda>s. s\<lparr>svg := svg s @ [[]]\<rparr>)"
      | site els where "a = d3_call F site (append_elements (length (svg s)) els)"
          "els = map EdgeLine links \<or> els = map LabelText nodes \<or> els = map VertexCircle nodes"
      | site h where "a = d3_call F site (update_sim (length (sims s)) h)"
      unfolding steps_def by auto
    then show "I (snd (a t))"
    proof cases
      case 1
      then show ?thesis using t stat by (simp add: d3_call_def)
    next
      case 2
      then show ?thesis using t stop by (simp add: d3_call_def split: option.splits)
    next
      case 3
      then show ?thesis using t create [OF b] by (simp add: d3_call_def)
    next
      case 4
      then show ?thesis using t by (simp add: d3_call_def)
    next
      case 5
      then show ?thesis using t group by (simp add: d3_call_def)
    next
      case 6
      then show ?thesis using t elements [OF b] by (simp add: d3_call_def)
    next
      case 7
      then show ?thesis using t sim by (simp add: d3_call_def)
    qed
  qed
  then show ?thesis by (simp only: unfold)
qed

text \<open>
  \<^verbatim>\<open>displayGraph\<close> writes the svg, the stats line, the simulations and the force, and
  it logs what it catches. It leaves every other field as it was.
\<close>

lemma displayGraph_try_frame:
  assumes "\<And>t x. f (t\<lparr>svg := x\<rparr>) = f t" and "\<And>t x. f (t\<lparr>stats := x\<rparr>) = f t"
    and "\<And>t x. f (t\<lparr>sims := x\<rparr>) = f t" and "\<And>t x. f (t\<lparr>force := x\<rparr>) = f t"
  shows "f (snd (displayGraph_try F V Es s)) = f s"
  by (rule displayGraph_try_invariant [where I = "\<lambda>t. f t = f s"])
    (simp_all add: assms clearGraph_def update_sim_def append_elements_def)

lemma log_frame:
  assumes "\<And>t x. f (t\<lparr>console := x\<rparr>) = f t" and "\<And>t x. f (t\<lparr>emitted := x\<rparr>) = f t"
  shows "f (log E a s) = f s"
  by (simp add: log_def emitToHost_def logToUI_def Let_def assms)

lemma displayGraph_frame:
  assumes "\<And>t x. f (t\<lparr>svg := x\<rparr>) = f t" and "\<And>t x. f (t\<lparr>stats := x\<rparr>) = f t"
    and "\<And>t x. f (t\<lparr>sims := x\<rparr>) = f t" and "\<And>t x. f (t\<lparr>force := x\<rparr>) = f t"
    and "\<And>t x. f (t\<lparr>console := x\<rparr>) = f t" and "\<And>t x. f (t\<lparr>emitted := x\<rparr>) = f t"
  shows "f (snd (displayGraph E F V Es s)) = f s"
proof (cases "displayGraph_try F V Es s")
  case (Pair r s')
  have s': "f s' = f s"
    using displayGraph_try_frame [of f F V Es s, OF assms(1-4)] Pair by simp
  show ?thesis
    using Pair s' by (cases r) (simp_all add: displayGraph_def log_frame [of f, OF assms(5,6)])
qed

lemma displayGraph_returns: "fst (displayGraph E F V Es s) = None"
  by (simp add: displayGraph_def split: prod.splits option.splits)

lemma displayGraph_statesClass [simp]:
  "statesClass (snd (displayGraph E F V Es s)) = statesClass s"
  by (rule displayGraph_frame) simp_all

lemma displayGraph_jsonResults [simp]:
  "jsonResults (snd (displayGraph E F V Es s)) = jsonResults s"
  by (rule displayGraph_frame) simp_all

lemma displayGraph_currentQueryId [simp]:
  "currentQueryId (snd (displayGraph E F V Es s)) = currentQueryId s"
  by (rule displayGraph_frame) simp_all

subsection \<open>Stale replies\<close>

lemma log_appends:
  "\<exists>msgs lines. log E a s = s\<lparr>emitted := emitted s @ msgs, console := console s @ lines\<rparr>"
proof (cases "socket s")
  case True
  have "log E a s = s\<lparr>emitted := emitted s @ [(''log'', [a])],
      console := console s @ [AStr (''Message to host: '' @ ''log'' @ '' '' @ join '', '' (map (arg_text E) [a])), a]\<rparr>"
    using True by (simp add: log_def emitToHost_def logToUI_def Let_def)
  then show ?thesis by blast
next
  case False
  have "log E a s = s\<lparr>emitted := emitted s @ [], console := console s @ [a]\<rparr>"
    using False by (simp add: log_def logToUI_def)
  then show ?thesis by blast
qed

lemma log_twice_appends:
  "\<exists>msgs lines. log E b (log E a s) = s\<lparr>emitted := emitted s @ msgs, console := console s @ lines\<rparr>"
proof -
  obtain m1 l1 where 1: "log E a s = s\<lparr>emitted := emitted s @ m1, console := console s @ l1\<rparr>"
    using log_appends by blast
  obtain m2 l2 where 2: "log E b (log E a s) =
      (log E a s)\<lparr>emitted := emitted (log E a s) @ m2, console := console (log E a s) @ l2\<rparr>"
    using log_appends by blast
  have "log E b (log E a s) = s\<lparr>emitted := emitted s @ (m1 @ m2), console := console s @ (l1 @ l2)\<rparr>"
    unfolding 2 unfolding 1 by simp
  then show ?thesis by blast
qed

lemma log_currentQueryId [simp]: "currentQueryId (log E a s) = currentQueryId s"
  by (rule log_frame) simp_all

text \<open>
  \<^bold>\<open>C1\<close>. A \<^verbatim>\<open>showResults\<close> or \<^verbatim>\<open>showQueryError\<close> message whose id is not the
  current query id only adds to what was emitted to the host (the log messages) and to
  the console; the handler returns normally and every other field of the client and of
  the page is as before: the state class, the JSON text, the error text, the stats line
  and the svg among them.
\<close>

theorem stale_reply_discarded:
  assumes "queryId \<noteq> currentQueryId s"
  shows "(\<exists>msgs lines. on_showResults E F queryId queryResults edgeResults s
            = (None, s\<lparr>emitted := emitted s @ msgs, console := console s @ lines\<rparr>))
    \<and> (\<exists>msgs lines. on_showQueryError E queryId err s
            = (None, s\<lparr>emitted := emitted s @ msgs, console := console s @ lines\<rparr>))
    \<and> displayed (snd (on_showResults E F queryId queryResults edgeResults s)) = displayed s
    \<and> displayed (snd (on_showQueryError E queryId err s)) = displayed s"
proof -
  have 1: "\<exists>msgs lines. on_showResults E F queryId queryResults edgeResults s
            = (None, s\<lparr>emitted := emitted s @ msgs, console := console s @ lines\<rparr>)"
    using assms log_twice_appends [of E _ _ s] by (simp add: on_showResults_def)
  have 2: "\<exists>msgs lines. on_showQueryError E queryId err s
            = (None, s\<lparr>emitted := emitted s @ msgs, console := console s @ lines\<rparr>)"
    using assms log_twice_appends [of E _ _ s] by (simp add: on_showQueryError_def)
  from 1 have 3: "displayed (snd (on_showResults E F queryId queryResults edgeResults s)) = displayed s"
    by (auto simp: displayed_def)
  from 2 have 4: "displayed (snd (on_showQueryError E queryId err s)) = displayed s"
    by (auto simp: displayed_def)
  from 1 2 3 4 show ?thesis by blast
qed

theorem stale_reply_discarded_witness:
  "(5::int) \<noteq> currentQueryId ((new_client 3000 :: nat client)\<lparr>currentQueryId := 6\<rparr>)
   \<and> displayed (snd (on_showQueryError example_env 5 ''timeout''
        ((new_client 3000)\<lparr>currentQueryId := 6\<rparr>)))
       = displayed ((new_client 3000)\<lparr>currentQueryId := 6\<rparr>)
   \<and> displayed (snd (on_showResults example_env {} 5 [vertex_a] []
        ((new_client 3000)\<lparr>currentQueryId := 6\<rparr>)))
       = displayed ((new_client 3000)\<lparr>currentQueryId := 6\<rparr>)"
proof -
  have h: "(5::int) \<noteq> currentQueryId ((new_client 3000 :: nat client)\<lparr>currentQueryId := 6\<rparr>)"
    by simp
  from stale_reply_discarded [OF h, of example_env "{}" "[vertex_a]" "[]" "''timeout''"] h
  show ?thesis by blast
qed

subsection \<open>showResults\<close>

lemma setStateResults_simps [simp]:
  "statesClass (setStateResults False s) = ''state-json-results state-results''"
  "statesClass (setStateResults True s) = ''state-graph-results state-results''"
  "svg (setStateResults b s) = svg s"
  "sims (setStateResults b s) = sims s"
  "force (setStateResults b s) = force s"
  "jsonResults (setStateResults b s) = jsonResults s"
  "stats (setStateResults b s) = stats s"
  "currentQueryId (setStateResults b s) = currentQueryId s"
  by (simp_all add: setStateResults_def setState_def)

lemma showResults_null:
  "JNull \<in> set queryResults \<Longrightarrow>
   showResults E F queryResults edgeResults s =
     (Some (TypeError ''type''),
      logToUI (AStr (stringify E queryResults)) (s\<lparr>jsonResults := stringify E queryResults\<rparr>))"
  by (simp add: showResults_def splitVerticesAndEdges_null)

lemma showResults_no_vertices:
  assumes "JNull \<notin> set queryResults" and "filter (has_type ''vertex'') queryResults = []"
  shows "showResults E F queryResults edgeResults s =
     (None, setStateResults False
        (logToUI (AStr (stringify E queryResults)) (s\<lparr>jsonResults := stringify E queryResults\<rparr>)))"
  using assms by (simp add: showResults_def splitVerticesAndEdges_ok)

lemma showResults_graph:
  assumes "JNull \<notin> set queryResults" and "filter (has_type ''vertex'') queryResults \<noteq> []"
  shows "showResults E F queryResults edgeResults s =
     displayGraph E F (filter (has_type ''vertex'') queryResults)
       (filter (has_type ''edge'') queryResults @ edgeResults)
       (setStateResults True
         (logToUI (AStr (stringify E queryResults)) (s\<lparr>jsonResults := stringify E queryResults\<rparr>)))"
  using assms by (simp add: showResults_def splitVerticesAndEdges_ok)

text \<open>
  A result set with no vertex and no null element: the state is json-results and neither
  the svg nor the simulations are touched, whatever view is stored, also when the results
  come with \<^verbatim>\<open>setPageState\<close>.
\<close>

lemma showResults_json_only:
  fixes E :: "'n env" and F and edgeResults :: "'n json list" and s :: "'n client"
  assumes "JNull \<notin> set queryResults" and "filter (has_type ''vertex'') queryResults = []"
  defines "s' \<equiv> snd (showResults E F queryResults edgeResults s)"
  shows "fst (showResults E F queryResults edgeResults s) = None"
    and "statesClass s' = ''state-json-results state-results''"
    and "svg s' = svg s" and "sims s' = sims s" and "force s' = force s" and "stats s' = stats s"
  by (simp_all add: s'_def showResults_no_vertices [OF assms(1,2)] logToUI_def)

lemma setView_simps [simp]:
  "statesClass (setView E s) = statesClass s"
  "svg (setView E s) = svg s"
  "sims (setView E s) = sims s"
  "force (setView E s) = force s"
  by (simp_all add: setView_def emitToHost_def logToUI_def Let_def)

lemma setPageState_json_only:
  fixes E :: "'n env" and F and s :: "'n client"
  assumes "JNull \<notin> set (results_queryResults pageState)"
    and "filter (has_type ''vertex'') (results_queryResults pageState) = []"
    and "\<not> isQueryRunning pageState"
    and "errorMessage pageState = None \<or> errorMessage pageState = Some []"
  defines "s' \<equiv> snd (on_setPageState E F pageState s)"
  shows "statesClass s' = ''state-json-results state-results''"
    and "svg s' = svg s" and "sims s' = sims s" and "force s' = force s"
proof -
  let ?s1 = "s\<lparr>queryInput := query_text pageState\<rparr>"
  note r = showResults_json_only [OF assms(1,2), of E F "results_edgeResults pageState" ?s1]
  obtain s2 where s2: "showResults E F (results_queryResults pageState)
      (results_edgeResults pageState) ?s1 = (None, s2)"
    using r(1) by (cases "showResults E F (results_queryResults pageState)
      (results_edgeResults pageState) ?s1") auto
  have eq: "s' = (if view pageState = Json then selectJsonView E s2 else selectGraphView E s2)"
    using assms(3,4) s2 by (auto simp: s'_def on_setPageState_def Let_def)
  from r(2-5) s2 have "statesClass s2 = ''state-json-results state-results''"
    and "svg s2 = svg s" and "sims s2 = sims s" and "force s2 = force s"
    by simp_all
  then show "statesClass s' = ''state-json-results state-results''"
    and "svg s' = svg s" and "sims s' = sims s" and "force s' = force s"
    by (simp_all add: eq selectJsonView_def selectGraphView_def)
qed

text \<open>
  \<^bold>\<open>C4\<close>. An accepted result set without a vertex is to be shown as JSON only,
  whatever view is stored. \<^verbatim>\<open>showResults\<close> does so for the result sets without a
  null element (\<open>showResults_json_only\<close>, \<open>setPageState_json_only\<close>). On a result
  set with a null element the type test \<^verbatim>\<open>n.type === "vertex"\<close> throws:
  \<^verbatim>\<open>showResults\<close> has written the JSON text by then and leaves the state class as it
  was. Here for the result \<^verbatim>\<open>[null]\<close>, which holds no vertex: after a query the page
  stays in the querying state.
\<close>

theorem showResults_null_record:
  "showResults E F [JNull] [] s =
     (Some (TypeError ''type''),
      logToUI (AStr (stringify E [JNull])) (s\<lparr>jsonResults := stringify E [JNull]\<rparr>))
   \<and> filter (has_type ''vertex'') [JNull] = []
   \<and> statesClass (snd (showResults E F [JNull] [] s)) = statesClass s
   \<and> statesClass (dispatch E F (CallQuery g) s) = ''state-querying''
   \<and> statesClass (dispatch E F (ShowResults (currentQueryId (dispatch E F (CallQuery g) s)) [JNull] [])
        (dispatch E F (CallQuery g) s)) = ''state-querying''"
proof -
  have 1: "showResults E F [JNull] [] t =
     (Some (TypeError ''type''),
      logToUI (AStr (stringify E [JNull])) (t\<lparr>jsonResults := stringify E [JNull]\<rparr>))" for t
    by (simp add: showResults_null)
  have 2: "filter (has_type ''vertex'') [JNull] = []"
    by (simp add: has_type_def)
  have 3: "statesClass (snd (showResults E F [JNull] [] t)) = statesClass t" for t
    by (simp add: 1 logToUI_def)
  have 4: "statesClass (dispatch E F (CallQuery g) s) = ''state-querying''"
    by (simp add: dispatch_def query_def setStateQuerying_def setState_def clearGraph_def Let_def)
  have log_class: "statesClass (log E a t) = statesClass t" for a t
    by (rule log_frame) simp_all
  have "statesClass (dispatch E F (ShowResults (currentQueryId t) [JNull] []) t) = statesClass t" for t
    by (simp add: dispatch_def on_showResults_def 1 logToUI_def log_class Let_def)
  with 4 have 5: "statesClass (dispatch E F (ShowResults (currentQueryId (dispatch E F (CallQuery g) s)) [JNull] [])
        (dispatch E F (CallQuery g) s)) = ''state-querying''"
    by simp
  from 1 2 3 4 5 show ?thesis by blast
qed

subsection \<open>Which records are drawn\<close>

lemma set_concat_update:
  "g < length xs \<Longrightarrow> set (concat (xs[g := xs ! g @ els])) = set (concat xs) \<union> set els"
proof (induction xs arbitrary: g)
  case Nil
  then show ?case by simp
next
  case (Cons x xs)
  show ?case
  proof (cases g)
    case 0
    then show ?thesis by auto
  next
    case (Suc g')
    with Cons.prems have "g' < length xs" by simp
    from Cons.IH [OF this] Suc show ?thesis by auto
  qed
qed

lemma in_map_filter: "y \<in> set (List.map_filter f xs) \<longleftrightarrow> (\<exists>x \<in> set xs. f x = Some y)"
  by (induction xs) (auto simp: map_filter_simps split: option.splits)

lemma link_of_Some: "link_of x = Some l \<longleftrightarrow> x = EdgeLine l"
  by (cases x) auto

lemma label_of_Some: "label_of x = Some n \<longleftrightarrow> x = LabelText n"
  by (cases x) auto

lemma circle_of_Some: "circle_of x = Some n \<longleftrightarrow> x = VertexCircle n"
  by (cases x) auto

lemma rendered_links_iff: "l \<in> set (rendered_links s) \<longleftrightarrow> EdgeLine l \<in> set (concat (svg s))"
  by (simp add: rendered_links_def in_map_filter link_of_Some)

lemma rendered_labels_iff: "n \<in> set (rendered_labels s) \<longleftrightarrow> LabelText n \<in> set (concat (svg s))"
  by (simp add: rendered_labels_def in_map_filter label_of_Some)

lemma rendered_nodes_iff: "n \<in> set (rendered_nodes s) \<longleftrightarrow> VertexCircle n \<in> set (concat (svg s))"
  by (simp add: rendered_nodes_def in_map_filter circle_of_Some)

text \<open>
  Whatever d3 call fails: what is under the svg when \<^verbatim>\<open>displayGraph\<close> returns was
  drawn from the vertices and edges it was given.
\<close>

lemma displayGraph_try_drawn_from:
  "\<forall>el \<in> set (concat (svg (snd (displayGraph_try F V Es s)))). drawn_from V Es el"
proof (rule displayGraph_try_invariant
    [where I = "\<lambda>t. \<forall>el \<in> set (concat (svg t)). drawn_from V Es el"])
  show "\<forall>el\<in>set (concat (svg (clearGraph s))). drawn_from V Es el"
    by (simp add: clearGraph_def)
next
  fix t :: "'a client" and nodes links els
  assume b: "build_graph V Es = Inr (nodes, links)"
    and els: "els = map EdgeLine links \<or> els = map LabelText nodes \<or> els = map VertexCircle nodes"
    and t: "\<forall>el\<in>set (concat (svg t)). drawn_from V Es el"
  have n: "vertex n \<in> set V" if "n \<in> set nodes" for n
    using that build_graph_members(1) [OF b] by (auto dest: in_set_takeD)
  have l: "edge l \<in> set Es" if "l \<in> set links" for l
    using that build_graph_members(2) [OF b] by blast
  have new: "\<forall>el \<in> set els. drawn_from V Es el"
    using els n l by auto
  have "set (concat (svg (append_elements (length (svg s)) els t)))
      \<subseteq> set (concat (svg t)) \<union> set els"
    by (simp add: append_elements_def set_concat_update del: set_concat)
  then show "\<forall>el\<in>set (concat (svg (append_elements (length (svg s)) els t))). drawn_from V Es el"
    using t new by blast
qed (simp_all add: update_sim_def)

lemma displayGraph_drawn_from:
  "\<forall>el \<in> set (concat (svg (snd (displayGraph E F V Es s)))). drawn_from V Es el"
proof -
  have "svg (snd (displayGraph E F V Es s)) = svg (snd (displayGraph_try F V Es s))"
    by (simp add: displayGraph_def log_frame [where f = svg] split: prod.splits option.splits)
  then show ?thesis
    using displayGraph_try_drawn_from [of F V Es s] by simp
qed

text \<open>
  \<^bold>\<open>C10\<close>. \<^verbatim>\<open>showResults\<close> always sets the JSON text to the serialisation of the
  primary result set, all its records, whatever the out-of-band edge list is. When it
  changes the svg at all, every circle and label rendered is of a record of the primary
  set whose type is "vertex", and every line rendered is of a record of the primary set
  whose type is "edge" or of an element of the out-of-band list: a record of the primary
  set of another type, or of none, is the vertex of no node and reaches no link through
  the primary set.
\<close>

theorem other_records_json_only:
  "jsonResults (snd (showResults E F queryResults edgeResults s)) = stringify E queryResults
   \<and> (svg (snd (showResults E F queryResults edgeResults s)) = svg s
      \<or> ((\<forall>n \<in> set (rendered_nodes (snd (showResults E F queryResults edgeResults s)))
               \<union> set (rendered_labels (snd (showResults E F queryResults edgeResults s))).
             vertex n \<in> set queryResults \<and> has_type ''vertex'' (vertex n))
         \<and> (\<forall>l \<in> set (rendered_links (snd (showResults E F queryResults edgeResults s))).
             edge l \<in> set edgeResults
             \<or> (edge l \<in> set queryResults \<and> has_type ''edge'' (edge l)))))"
proof (cases "JNull \<in> set queryResults")
  case True
  then show ?thesis
    by (simp add: showResults_null logToUI_def)
next
  case no_null: False
  show ?thesis
  proof (cases "filter (has_type ''vertex'') queryResults = []")
    case True
    with no_null show ?thesis
      by (simp add: showResults_no_vertices logToUI_def setStateResults_def setState_def)
  next
    case False
    let ?V = "filter (has_type ''vertex'') queryResults"
    let ?Es = "filter (has_type ''edge'') queryResults @ edgeResults"
    let ?s' = "snd (showResults E F queryResults edgeResults s)"
    note eq = showResults_graph [OF no_null False, of E F edgeResults s]
    have json: "jsonResults ?s' = stringify E queryResults"
      by (simp add: eq logToUI_def setStateResults_def setState_def)
    have drawn: "\<forall>el \<in> set (concat (svg ?s')). drawn_from ?V ?Es el"
      unfolding eq by (rule displayGraph_drawn_from)
    have nodes: "vertex n \<in> set queryResults \<and> has_type ''vertex'' (vertex n)"
      if "n \<in> set (rendered_nodes ?s') \<union> set (rendered_labels ?s')" for n
    proof -
      from that have "VertexCircle n \<in> set (concat (svg ?s')) \<or> LabelText n \<in> set (concat (svg ?s'))"
        by (simp add: rendered_nodes_iff rendered_labels_iff del: set_concat)
      with drawn have "drawn_from ?V ?Es (VertexCircle n) \<or> drawn_from ?V ?Es (LabelText n)"
        by blast
      then show ?thesis by simp
    qed
    have links: "edge l \<in> set edgeResults \<or> (edge l \<in> set queryResults \<and> has_type ''edge'' (edge l))"
      if "l \<in> set (rendered_links ?s')" for l
    proof -
      from that have "EdgeLine l \<in> set (concat (svg ?s'))"
        by (simp add: rendered_links_iff del: set_concat)
      with drawn have "drawn_from ?V ?Es (EdgeLine l)"
        by blast
      then show ?thesis by auto
    qed
    from json nodes links show ?thesis by blast
  qed
qed

lemma example_no_null:
  "JNull \<notin> set [vertex_a, vertex_b, record_count, edge_e1]"
  "JNull \<notin> set [vertex_a, vertex_b, edge_e1]"
  "JNull \<notin> set [edge_e1]"
  "JNull \<notin> set ([] :: nat json list)"
  "JNull \<notin> set [vertex_a, vertex_b]"
  by (simp_all add: vertex_a_def vertex_b_def edge_e1_def record_count_def)

lemma example_types:
  "has_type ''vertex'' vertex_a" "has_type ''vertex'' vertex_b"
  "\<not> has_type ''vertex'' edge_e1" "\<not> has_type ''vertex'' record_count"
  "\<not> has_type ''edge'' vertex_a" "\<not> has_type ''edge'' vertex_b"
  "has_type ''edge'' edge_e1" "\<not> has_type ''edge'' record_count"
  by (simp_all add: has_type_def vertex_a_def vertex_b_def edge_e1_def record_count_def)

lemma example_survive:
  "endpoints_survive [vertex_a, vertex_b] edge_e1"
  "\<not> endpoints_survive [vertex_a, vertex_b] edge_e2"
  by (simp_all add: endpoints_survive_def resolves_def vertex_a_def vertex_b_def edge_e1_def
      edge_e2_def)

lemma new_client_svg [simp]: "svg (new_client p) = []"
  by (simp add: new_client_def setStateEmpty_def setState_def logToUI_def Let_def)

theorem other_records_json_only_witness:
  "jsonResults (snd (showResults example_env {} [vertex_a, vertex_b, record_count, edge_e1] []
       (new_client 3000)))
     = stringify example_env [vertex_a, vertex_b, record_count, edge_e1]
   \<and> svg (snd (showResults example_env {} [vertex_a, vertex_b, record_count, edge_e1] []
       (new_client 3000))) \<noteq> svg (new_client 3000)
   \<and> record_count \<notin> vertex ` set (rendered_nodes (snd (showResults example_env {}
       [vertex_a, vertex_b, record_count, edge_e1] [] (new_client 3000))))
   \<and> record_count \<notin> edge ` set (rendered_links (snd (showResults example_env {}
       [vertex_a, vertex_b, record_count, edge_e1] [] (new_client 3000))))"
proof -
  define qr where "qr = [vertex_a, vertex_b, record_count, edge_e1]"
  define s' where "s' = snd (showResults example_env {} qr [] (new_client 3000))"
  note T = other_records_json_only [of example_env "{}" qr "[]" "new_client 3000", folded s'_def]
  have V: "filter (has_type ''vertex'') qr = [vertex_a, vertex_b]"
    and Es: "filter (has_type ''edge'') qr @ [] = [edge_e1]"
    by (simp_all add: example_types qr_def)
  have nn: "JNull \<notin> set qr"
    unfolding qr_def by (rule example_no_null(1))
  have "filter (has_type ''vertex'') qr \<noteq> []"
    by (simp add: V)
  note eq = showResults_graph [OF nn this, of example_env "{}" "[]" "new_client 3000",
      unfolded V Es]
  have "map vertex (rendered_nodes s') = take maxNodes [vertex_a, vertex_b]"
    unfolding s'_def eq by (rule displayGraph_rendered(2) [OF example_no_null(5,3)])
  then have ne: "rendered_nodes s' \<noteq> []"
    by (auto simp: maxNodes_def)
  have changed: "svg s' \<noteq> svg (new_client 3000)"
  proof
    assume "svg s' = svg (new_client 3000)"
    then have "rendered_nodes s' = []"
      by (simp add: rendered_nodes_def List.map_filter_simps)
    with ne show False by simp
  qed
  from T have json: "jsonResults s' = stringify example_env qr"
    by (rule conjunct1)
  from T [THEN conjunct2] changed
  have both: "(\<forall>n \<in> set (rendered_nodes s') \<union> set (rendered_labels s').
       vertex n \<in> set qr \<and> has_type ''vertex'' (vertex n))
    \<and> (\<forall>l \<in> set (rendered_links s').
       edge l \<in> set [] \<or> (edge l \<in> set qr \<and> has_type ''edge'' (edge l)))"
    by blast
  have 1: "record_count \<notin> vertex ` set (rendered_nodes s')"
  proof
    assume "record_count \<in> vertex ` set (rendered_nodes s')"
    then obtain n where "n \<in> set (rendered_nodes s')" "vertex n = record_count"
      by auto
    with both have "has_type ''vertex'' record_count"
      by (metis UnI1)
    with example_types(4) show False by simp
  qed
  have 2: "record_count \<notin> edge ` set (rendered_links s')"
  proof
    assume "record_count \<in> edge ` set (rendered_links s')"
    then obtain l where "l \<in> set (rendered_links s')" "edge l = record_count"
      by auto
    with both have "has_type ''edge'' record_count"
      by (metis empty_iff empty_set)
    with example_types(8) show False by simp
  qed
  from json changed 1 2 show ?thesis
    unfolding s'_def qr_def by (intro conjI)
qed

subsection \<open>The edges of a graph\<close>

lemma list_ex_filter: "list_ex P xs \<longleftrightarrow> filter P xs \<noteq> []"
  by (induction xs) auto

text \<open>
  \<^bold>\<open>C8\<close>. For every result set with at least one vertex: when no record of it is
  null, \<^verbatim>\<open>showResults\<close> passes to \<^verbatim>\<open>displayGraph\<close> the records of type "vertex"
  and, as the edges, the records of type "edge" of the primary set followed by the whole
  out-of-band list: a list concatenation, an edge that is in both is there twice. Then,
  when no d3 call throws and no out-of-band edge is null, the rendered links are the
  first 1000 of the edges of that list that resolve. When a record is null, the split
  throws and no graph is built from any edge set: the svg and the simulations are
  untouched.
\<close>

theorem edges_folded_in:
  assumes "list_ex (has_type ''vertex'') queryResults"
  shows "(JNull \<notin> set queryResults \<longrightarrow>
      showResults E F queryResults edgeResults s =
        displayGraph E F (filter (has_type ''vertex'') queryResults)
          (filter (has_type ''edge'') queryResults @ edgeResults)
          (setStateResults True
            (logToUI (AStr (stringify E queryResults)) (s\<lparr>jsonResults := stringify E queryResults\<rparr>))))
   \<and> (JNull \<notin> set queryResults \<longrightarrow> JNull \<notin> set edgeResults \<longrightarrow>
        map edge (rendered_links (snd (showResults E {} queryResults edgeResults s)))
          = take 1000 (filter (endpoints_survive (take 300 (filter (has_type ''vertex'') queryResults)))
                (filter (has_type ''edge'') queryResults @ edgeResults)))
   \<and> (JNull \<in> set queryResults \<longrightarrow>
        fst (showResults E F queryResults edgeResults s) = Some (TypeError ''type'')
        \<and> svg (snd (showResults E F queryResults edgeResults s)) = svg s
        \<and> sims (snd (showResults E F queryResults edgeResults s)) = sims s
        \<and> force (snd (showResults E F queryResults edgeResults s)) = force s)"
proof -
  let ?V = "filter (has_type ''vertex'') queryResults"
  let ?Es = "filter (has_type ''edge'') queryResults @ edgeResults"
  from assms have ne: "?V \<noteq> []"
    by (simp add: list_ex_filter)
  have 1: "showResults E F queryResults edgeResults s =
        displayGraph E F ?V ?Es
          (setStateResults True
            (logToUI (AStr (stringify E queryResults)) (s\<lparr>jsonResults := stringify E queryResults\<rparr>)))"
    if "JNull \<notin> set queryResults" for F
    using that ne by (rule showResults_graph)
  have 2: "map edge (rendered_links (snd (showResults E {} queryResults edgeResults s)))
          = take 1000 (filter (endpoints_survive (take 300 ?V)) ?Es)"
    if "JNull \<notin> set queryResults" "JNull \<notin> set edgeResults"
  proof -
    have "JNull \<notin> set ?V" and "JNull \<notin> set ?Es"
      using that by auto
    from displayGraph_rendered(4) [OF this] show ?thesis
      unfolding 1 [OF that(1)] by (simp only: maxNodes_def maxEdges_def)
  qed
  have 3: "fst (showResults E F queryResults edgeResults s) = Some (TypeError ''type'')
        \<and> svg (snd (showResults E F queryResults edgeResults s)) = svg s
        \<and> sims (snd (showResults E F queryResults edgeResults s)) = sims s
        \<and> force (snd (showResults E F queryResults edgeResults s)) = force s"
    if "JNull \<in> set queryResults"
    using that by (simp add: showResults_null logToUI_def)
  from 1 have A: "JNull \<notin> set queryResults \<longrightarrow>
      showResults E F queryResults edgeResults s =
        displayGraph E F ?V ?Es
          (setStateResults True
            (logToUI (AStr (stringify E queryResults)) (s\<lparr>jsonResults := stringify E queryResults\<rparr>)))"
    by (rule impI)
  from 2 have B: "JNull \<notin> set queryResults \<longrightarrow> JNull \<notin> set edgeResults \<longrightarrow>
        map edge (rendered_links (snd (showResults E {} queryResults edgeResults s)))
          = take 1000 (filter (endpoints_survive (take 300 ?V)) ?Es)"
    by (intro impI)
  from 3 have C: "JNull \<in> set queryResults \<longrightarrow>
        fst (showResults E F queryResults edgeResults s) = Some (TypeError ''type'')
        \<and> svg (snd (showResults E F queryResults edgeResults s)) = svg s
        \<and> sims (snd (showResults E F queryResults edgeResults s)) = sims s
        \<and> force (snd (showResults E F queryResults edgeResults s)) = force s"
    by (rule impI)
  show ?thesis
    by (rule conjI [OF A conjI [OF B C]])
qed

theorem edges_folded_in_witness:
  "list_ex (has_type ''vertex'') [vertex_a, vertex_b, edge_e1]
   \<and> JNull \<notin> set [vertex_a, vertex_b, edge_e1] \<and> JNull \<notin> set [edge_e1]
   \<and> map edge (rendered_links (snd (showResults example_env {} [vertex_a, vertex_b, edge_e1] [edge_e1]
        (new_client 3000)))) = [edge_e1, edge_e1]
   \<and> list_ex (has_type ''vertex'') [vertex_a, JNull] \<and> JNull \<in> set [vertex_a, JNull]
   \<and> svg (snd (showResults example_env {} [vertex_a, JNull] [edge_e1] (new_client 3000)))
       = svg (new_client 3000)"
proof -
  have v: "list_ex (has_type ''vertex'') [vertex_a, vertex_b, edge_e1]"
    and v': "list_ex (has_type ''vertex'') [vertex_a, JNull]"
    by (simp_all add: example_types)
  have n: "JNull \<in> set [vertex_a, JNull]"
    by simp
  have "take 1000 (filter (endpoints_survive (take 300 (filter (has_type ''vertex'') [vertex_a, vertex_b, edge_e1])))
                (filter (has_type ''edge'') [vertex_a, vertex_b, edge_e1] @ [edge_e1])) = [edge_e1, edge_e1]"
    by (simp add: example_types example_survive)
  with edges_folded_in [OF v, of example_env "{}" "[edge_e1]" "new_client 3000",
      THEN conjunct2, THEN conjunct1, rule_format, OF example_no_null(2) example_no_null(3)]
  have 1: "map edge (rendered_links (snd (showResults example_env {} [vertex_a, vertex_b, edge_e1] [edge_e1]
        (new_client 3000)))) = [edge_e1, edge_e1]"
    by (rule trans)
  from edges_folded_in [OF v', of example_env "{}" "[edge_e1]" "new_client 3000",
      THEN conjunct2, THEN conjunct2, rule_format, OF n]
  have 2: "svg (snd (showResults example_env {} [vertex_a, JNull] [edge_e1] (new_client 3000)))
       = svg (new_client 3000)"
    by (rule conjunct2 [THEN conjunct1])
  from v example_no_null(2,3) 1 v' n 2 show ?thesis
    by (intro conjI)
qed

subsection \<open>One simulation at a time\<close>

lemma one_active_cong:
  "sims t = sims s \<Longrightarrow> force t = force s \<Longrightarrow> one_active t = one_active s"
  by (simp add: one_active_def)

text \<open>A render that completes is the render in which no d3 call throws.\<close>

lemma seq_success_cong:
  assumes "list_all2 (\<lambda>a b. \<forall>t. fst (a t) = None \<longrightarrow> a t = b t) as bs"
    and "fst (seq as s) = None"
  shows "seq as s = seq bs s"
  using assms
proof (induction as bs arbitrary: s rule: list_all2_induct)
  case Nil
  show ?case by simp
next
  case (Cons a as b bs)
  obtain r s' where a: "a s = (r, s')"
    by (cases "a s")
  with Cons.prems have r: "r = None"
    by (cases r) auto
  with a Cons.hyps(1) have b: "b s = (None, s')"
    by auto
  from a r Cons.prems have "fst (seq as s') = None"
    by simp
  then have "seq as s' = seq bs s'"
    by (rule Cons.IH)
  with a b r show ?case by simp
qed

lemma d3_call_success: "fst (d3_call F site f t) = None \<longrightarrow> d3_call F site f t = d3_call {} site f t"
  by (simp add: d3_call_def)

lemma displayGraph_try_success:
  assumes "fst (displayGraph_try F V Es s) = None"
  shows "displayGraph_try F V Es s = displayGraph_try {} V Es s"
proof (cases "build_graph V Es")
  case (Inl e)
  with assms show ?thesis
    by (simp add: displayGraph_try_def)
next
  case (Inr p)
  obtain nodes links where p: "p = (nodes, links)"
    by (cases p)
  note b = Inr [unfolded p]
  have stop: "fst ((case force t of None \<Rightarrow> (None, t)
        | Some old \<Rightarrow> d3_call F AtForceStop (update_sim old (\<lambda>m. m\<lparr>running := False\<rparr>)) t)) = None
      \<longrightarrow> (case force t of None \<Rightarrow> (None, t)
        | Some old \<Rightarrow> d3_call F AtForceStop (update_sim old (\<lambda>m. m\<lparr>running := False\<rparr>)) t)
        = (case force t of None \<Rightarrow> (None, t)
        | Some old \<Rightarrow> d3_call {} AtForceStop (update_sim old (\<lambda>m. m\<lparr>running := False\<rparr>)) t)"
    for t :: "'a client"
    by (simp add: d3_call_def split: option.splits)
  show ?thesis
    using assms unfolding displayGraph_try_def Let_def b sum.case prod.case
    by (intro seq_success_cong) (simp_all add: d3_call_success stop del: seq.simps)
qed


text \<open>
  The invariant through a render, whatever d3 call fails: the old simulation is stopped
  before the new one is created, and only the new one is started.
\<close>

lemma one_active_svg [simp]: "one_active (s\<lparr>svg := x\<rparr>) = one_active s"
  by (simp add: one_active_def)

lemma one_active_stats [simp]: "one_active (s\<lparr>stats := x\<rparr>) = one_active s"
  by (simp add: one_active_def)

lemma one_active_append_elements [simp]: "one_active (append_elements g els s) = one_active s"
  by (simp add: append_elements_def)

lemma force_append_elements [simp]: "force (append_elements g els s) = force s"
  by (simp add: append_elements_def)

lemma displayGraph_try_one_active:
  assumes inv: "one_active s"
  shows "one_active (snd (displayGraph_try F V Es s))"
proof (cases "build_graph V Es")
  case (Inl e)
  then show ?thesis
    using inv by (simp add: displayGraph_try_def clearGraph_def)
next
  case (Inr p)
  obtain nodes links where p: "p = (nodes, links)"
    by (cases p)
  define s1 where "s1 = clearGraph s"
  define f where "f = length (sims s1)"
  define g where "g = length (svg s1)"
  define J where "J = (\<lambda>t::'a client. one_active t \<and> force t = Some f)"
  define rest where "rest = [
     d3_call F AtForceConfig (\<lambda>s. s),
     d3_call F AtSvgGroup (\<lambda>s. s\<lparr>svg := svg s @ [[]]\<rparr>),
     d3_call F AtEdgeLines (append_elements g (map EdgeLine links)),
     d3_call F AtForceDrag (\<lambda>s. s),
     d3_call F AtLabelTexts (append_elements g (map LabelText nodes)),
     d3_call F AtVertexCircles (append_elements g (map VertexCircle nodes)),
     d3_call F AtForceOnTick (update_sim f (\<lambda>m. m\<lparr>tick_handlers := 1\<rparr>)),
     d3_call F AtForceStart (update_sim f (\<lambda>m. m\<lparr>running := True\<rparr>))]"
  define create where "create = d3_call F AtForceCreate (\<lambda>s. s\<lparr>
               sims := sims s @ [\<lparr>sim_nodes = nodes, sim_links = links,
                                  running = False, tick_handlers = 0\<rparr>],
               force := Some f\<rparr>)"
  define stop where "stop = (\<lambda>s::'a client. case force s of
                     None \<Rightarrow> (None, s)
                   | Some old \<Rightarrow> d3_call F AtForceStop (update_sim old (\<lambda>m. m\<lparr>running := False\<rparr>)) s)"
  define stat where "stat = d3_call F AtStatsText (\<lambda>s::'a client. s\<lparr>stats :=
               statsText (length nodes) (length V) (length links) (length Es)\<rparr>)"
  have unfold: "displayGraph_try F V Es s = seq (stat # stop # create # rest) s1"
    unfolding displayGraph_try_def Let_def Inr p sum.case prod.case s1_def f_def g_def
      rest_def create_def stop_def stat_def
    by (rule refl)
  have s1: "one_active s1"
    using inv by (simp add: s1_def clearGraph_def)
  have J_rest: "J (snd (seq rest t))" if "J t" for t
  proof (rule seq_invariant [where I = J and s = t, OF _ that])
    fix a t
    assume "a \<in> set rest" and Jt: "J t"
    then consider "a = d3_call F AtForceConfig (\<lambda>s. s)"
      | "a = d3_call F AtSvgGroup (\<lambda>s. s\<lparr>svg := svg s @ [[]]\<rparr>)"
      | els where "a = d3_call F AtEdgeLines (append_elements g els)"
      | "a = d3_call F AtForceDrag (\<lambda>s. s)"
      | els where "a = d3_call F AtLabelTexts (append_elements g els)"
      | els where "a = d3_call F AtVertexCircles (append_elements g els)"
      | "a = d3_call F AtForceOnTick (update_sim f (\<lambda>m. m\<lparr>tick_handlers := 1\<rparr>))"
      | "a = d3_call F AtForceStart (update_sim f (\<lambda>m. m\<lparr>running := True\<rparr>))"
      by (auto simp: rest_def)
    then show "J (snd (a t))"
    proof cases
      case 7
      then show ?thesis
        using Jt by (auto simp: J_def d3_call_def update_sim_def one_active_def nth_list_update)
    next
      case 8
      then show ?thesis
        using Jt by (auto simp: J_def d3_call_def update_sim_def one_active_def nth_list_update)
    qed (use Jt in \<open>auto simp: J_def d3_call_def\<close>)
  qed
  have tail: "one_active (snd (seq (create # rest) t))"
    if stopped: "\<forall>i < length (sims t). \<not> running (sims t ! i)"
      and bound: "\<forall>i. force t = Some i \<longrightarrow> i < length (sims t)"
      and len: "length (sims t) = f" for t
  proof (cases "AtForceCreate \<in> F")
    case True
    then show ?thesis
      using stopped bound by (simp add: create_def d3_call_def one_active_def)
  next
    case False
    define t' where "t' = t\<lparr>sims := sims t @ [\<lparr>sim_nodes = nodes, sim_links = links,
                                  running = False, tick_handlers = 0\<rparr>], force := Some f\<rparr>"
    have "J t'"
      using stopped len by (auto simp: J_def t'_def one_active_def nth_append)
    then have "J (snd (seq rest t'))" by (rule J_rest)
    moreover have "seq (create # rest) t = seq rest t'"
      using False by (simp add: create_def d3_call_def t'_def)
    ultimately show ?thesis by (simp add: J_def)
  qed
  have "one_active (snd (seq (stat # stop # create # rest) s1))"
  proof (cases "AtStatsText \<in> F")
    case True
    then show ?thesis using s1 by (simp add: stat_def d3_call_def)
  next
    case False
    define s2 where "s2 = s1\<lparr>stats := statsText (length nodes) (length V) (length links) (length Es)\<rparr>"
    have s2: "one_active s2" and len2: "length (sims s2) = f"
      using s1 by (simp_all add: s2_def f_def)
    have eq2: "seq (stat # stop # create # rest) s1 = seq (stop # create # rest) s2"
      using False by (simp add: stat_def d3_call_def s2_def)
    show ?thesis
    proof (cases "force s2")
      case None
      then have "seq (stop # create # rest) s2 = seq (create # rest) s2"
        by (simp add: stop_def)
      with eq2 have E: "seq (stat # stop # create # rest) s1 = seq (create # rest) s2"
        by (rule trans)
      have "one_active (snd (seq (create # rest) s2))"
        using s2 None len2 by (intro tail) (auto simp: one_active_def)
      then show ?thesis unfolding E .
    next
      case (Some old)
      show ?thesis
      proof (cases "AtForceStop \<in> F")
        case True
        then have "seq (stop # create # rest) s2 = (Some (RenderError AtForceStop), s2)"
          using Some by (simp add: stop_def d3_call_def)
        with eq2 have E: "seq (stat # stop # create # rest) s1 = (Some (RenderError AtForceStop), s2)"
          by (rule trans)
        show ?thesis unfolding E using s2 by simp
      next
        case False
        define s3 where "s3 = update_sim old (\<lambda>m. m\<lparr>running := False\<rparr>) s2"
        have "seq (stop # create # rest) s2 = seq (create # rest) s3"
          using False Some by (simp add: stop_def d3_call_def s3_def)
        with eq2 have E: "seq (stat # stop # create # rest) s1 = seq (create # rest) s3"
          by (rule trans)
        have "one_active (snd (seq (create # rest) s3))"
          using s2 Some len2
          by (intro tail) (auto simp: one_active_def s3_def update_sim_def nth_list_update)
        then show ?thesis unfolding E .
      qed
    qed
  qed
  then show ?thesis by (simp only: unfold)
qed

lemma displayGraph_one_active:
  assumes "one_active s"
  shows "one_active (snd (displayGraph E F V Es s))"
proof (cases "displayGraph_try F V Es s")
  case (Pair r s')
  with displayGraph_try_one_active [OF assms, of F V Es] have s': "one_active s'"
    by simp
  have "one_active (log E a s')" for a
  proof -
    have "sims (log E a s') = sims s'" and "force (log E a s') = force s'"
      by (simp_all add: log_frame [where f = sims] log_frame [where f = force])
    then have "one_active (log E a s') = one_active s'"
      by (rule one_active_cong)
    with s' show ?thesis by simp
  qed
  with Pair s' show ?thesis
    by (cases r) (simp_all add: displayGraph_def)
qed

lemma sims_force_unchanged [simp]:
  "sims (logToUI a s) = sims s" "force (logToUI a s) = force s"
  "sims (emitToHost E m args s) = sims s" "force (emitToHost E m args s) = force s"
  "sims (log E a s) = sims s" "force (log E a s) = force s"
  "sims (setState st s) = sims s" "force (setState st s) = force s"
  "sims (clearGraph s) = sims s" "force (clearGraph s) = force s"
  by (simp_all add: logToUI_def emitToHost_def log_def setState_def clearGraph_def Let_def)

lemma sims_force_unchanged' [simp]:
  "sims (setStateQuerying s) = sims s" "force (setStateQuerying s) = force s"
  "sims (setStateError msg s) = sims s" "force (setStateError msg s) = force s"
  "sims (selectGraphView E s) = sims s" "force (selectGraphView E s) = force s"
  "sims (selectJsonView E s) = sims s" "force (selectJsonView E s) = force s"
  "sims (getPageState E s) = sims s" "force (getPageState E s) = force s"
  "sims (query E g s) = sims s" "force (query E g s) = force s"
  "sims (setQuery E q s) = sims s" "force (setQuery E q s) = force s"
  by (simp_all add: setStateQuerying_def setStateError_def selectGraphView_def
      selectJsonView_def getPageState_def query_def setQuery_def Let_def)

lemma one_active_frames [simp]:
  "one_active (logToUI a s) = one_active s"
  "one_active (emitToHost E m args s) = one_active s"
  "one_active (log E a s) = one_active s"
  "one_active (setState st s) = one_active s"
  "one_active (clearGraph s) = one_active s"
  "one_active (setStateQuerying s) = one_active s"
  "one_active (setStateError msg s) = one_active s"
  "one_active (setStateResults b s) = one_active s"
  "one_active (selectGraphView E s) = one_active s"
  "one_active (selectJsonView E s) = one_active s"
  "one_active (getPageState E s) = one_active s"
  "one_active (query E g s) = one_active s"
  "one_active (setQuery E q s) = one_active s"
  by (rule one_active_cong, simp, simp)+

lemma one_active_fields [simp]:
  "one_active (s\<lparr>jsonResults := j\<rparr>) = one_active s"
  "one_active (s\<lparr>queryInput := i\<rparr>) = one_active s"
  "one_active (s\<lparr>currentQueryId := c\<rparr>) = one_active s"
  "one_active (s\<lparr>emitted := e\<rparr>) = one_active s"
  "one_active (s\<lparr>title := tt\<rparr>) = one_active s"
  by (simp_all add: one_active_def)

lemma showResults_one_active:
  assumes "one_active s"
  shows "one_active (snd (showResults E F queryResults edgeResults s))"
proof (cases "splitVerticesAndEdges queryResults")
  case (Inl e)
  then show ?thesis
    using assms by (simp add: showResults_def)
next
  case (Inr p)
  obtain vs es where p: "p = (vs, es)"
    by (cases p)
  show ?thesis
  proof (cases "vs = []")
    case True
    then show ?thesis
      using assms Inr p by (simp add: showResults_def)
  next
    case False
    then show ?thesis
      using assms Inr p by (simp add: showResults_def displayGraph_one_active)
  qed
qed

lemma on_showResults_one_active:
  "one_active s \<Longrightarrow> one_active (snd (on_showResults E F queryId queryResults edgeResults s))"
  unfolding on_showResults_def Let_def by (simp add: showResults_one_active)

lemma on_showQueryError_one_active:
  "one_active s \<Longrightarrow> one_active (snd (on_showQueryError E queryId err s))"
  unfolding on_showQueryError_def Let_def by simp

lemma on_setPageState_one_active:
  assumes "one_active s"
  shows "one_active (snd (on_setPageState E F ps s))"
proof -
  let ?s1 = "s\<lparr>queryInput := query_text ps\<rparr>"
  obtain r s2 where sr: "showResults E F (results_queryResults ps) (results_edgeResults ps) ?s1 = (r, s2)"
    by (cases "showResults E F (results_queryResults ps) (results_edgeResults ps) ?s1")
  have "one_active ?s1"
    using assms by simp
  from showResults_one_active [OF this, of E F "results_queryResults ps" "results_edgeResults ps"] sr
  have s2: "one_active s2" by simp
  show ?thesis
    unfolding on_setPageState_def Let_def sr
    using assms s2 by (cases r) simp_all
qed

lemma handle_one_active:
  assumes "one_active s"
  shows "one_active (snd (handle E F ev s))"
  using assms
  by (cases ev)
    (simp_all add: on_connect_def on_disconnect_def on_setTitle_def Let_def
      on_setPageState_one_active on_showResults_one_active on_showQueryError_one_active)

lemma dispatch_one_active:
  assumes "one_active s"
  shows "one_active (dispatch E F ev s)"
proof (cases "handle E F ev s")
  case (Pair r s')
  with handle_one_active [OF assms, of E F ev] have "one_active s'"
    by simp
  with Pair show ?thesis
    by (cases r) (simp_all add: dispatch_def)
qed

lemma run_one_active: "one_active s \<Longrightarrow> one_active (run E evs s)"
proof (induction evs arbitrary: s)
  case Nil
  then show ?case by simp
next
  case (Cons x evs)
  then show ?case
    by (cases x) (simp add: dispatch_one_active)
qed

lemma new_client_one_active: "one_active (new_client p)"
  by (simp add: new_client_def one_active_def setStateEmpty_def Let_def)

lemma reachable_one_active: "one_active (run E evs (new_client p))"
  by (rule run_one_active) (rule new_client_one_active)

lemma filter_at_most_one:
  assumes "\<And>i k. i < length xs \<Longrightarrow> k < length xs \<Longrightarrow> P (xs ! i) \<Longrightarrow> P (xs ! k) \<Longrightarrow> i = k"
  shows "length (filter P xs) \<le> 1"
  using assms
proof (induction xs)
  case Nil
  show ?case by simp
next
  case (Cons x xs)
  show ?case
  proof (cases "P x")
    case True
    have "\<not> P y" if "y \<in> set xs" for y
    proof
      assume "P y"
      from that obtain i where i: "i < length xs" "xs ! i = y"
        by (auto simp: in_set_conv_nth)
      with Cons.prems [of "Suc i" 0] True \<open>P y\<close> show False
        by simp
    qed
    then have "filter P xs = []"
      by (simp add: filter_empty_conv)
    with True show ?thesis by simp
  next
    case False
    have "length (filter P xs) \<le> 1"
    proof (rule Cons.IH)
      fix i k
      assume "i < length xs" "k < length xs" "P (xs ! i)" "P (xs ! k)"
      with Cons.prems [of "Suc i" "Suc k"] show "i = k" by simp
    qed
    with False show ?thesis by simp
  qed
qed

lemma one_active_at_most_one:
  assumes "one_active s"
  shows "length (active_sims s) \<le> 1"
  unfolding active_sims_def
proof (rule filter_at_most_one)
  fix i k
  assume "i < length (sims s)" "k < length (sims s)" "running (sims s ! i)" "running (sims s ! k)"
  with assms have "force s = Some i" and "force s = Some k"
    unfolding one_active_def by blast+
  then show "i = k" by simp
qed

lemma stop_old_all_stopped:
  assumes "one_active s"
  shows "filter running (stop_old s) = []"
proof -
  have nth: "\<not> running (stop_old s ! i)" if i: "i < length (sims s)" for i
  proof (cases "force s")
    case None
    with assms i have "\<not> running (sims s ! i)"
      unfolding one_active_def by auto
    with None show ?thesis by (simp add: stop_old_def)
  next
    case (Some old)
    with assms have old: "old < length (sims s)"
      unfolding one_active_def by blast
    show ?thesis
    proof (cases "i = old")
      case True
      with Some old show ?thesis by (simp add: stop_old_def)
    next
      case False
      with assms i Some have "\<not> running (sims s ! i)"
        unfolding one_active_def by auto
      with Some old False show ?thesis by (simp add: stop_old_def)
    qed
  qed
  have "\<not> running m" if "m \<in> set (stop_old s)" for m
  proof -
    from that obtain i where "i < length (stop_old s)" "stop_old s ! i = m"
      by (auto simp: in_set_conv_nth)
    with nth [of i] show ?thesis by simp
  qed
  then show ?thesis
    by (simp add: filter_empty_conv)
qed

text \<open>
  \<^bold>\<open>C6\<close>. In every state a client reaches, whatever messages arrive and whatever d3
  calls throw, at most one simulation runs. When the try block of \<^verbatim>\<open>displayGraph\<close>
  runs to its end, every simulation that existed before is stopped and exactly one
  simulation runs afterwards: the new one, which \<^verbatim>\<open>this._force\<close> refers to, with one
  tick listener.
\<close>

theorem one_simulation_active:
  "length (active_sims (run E evs (new_client p))) \<le> 1
   \<and> (fst (displayGraph_try F V Es (run E evs (new_client p))) = None \<longrightarrow>
        (\<exists>m. active_sims (snd (displayGraph E F V Es (run E evs (new_client p)))) = [m]
           \<and> tick_handlers m = 1
           \<and> force (snd (displayGraph E F V Es (run E evs (new_client p))))
               = Some (length (sims (run E evs (new_client p))))
           \<and> sims (snd (displayGraph E F V Es (run E evs (new_client p))))
               ! length (sims (run E evs (new_client p))) = m
           \<and> (\<forall>i < length (sims (run E evs (new_client p))).
                 \<not> running (sims (snd (displayGraph E F V Es (run E evs (new_client p)))) ! i))))"
proof -
  define s where "s = run E evs (new_client p)"
  have inv: "one_active s"
    unfolding s_def by (rule reachable_one_active)
  have 1: "length (active_sims s) \<le> 1"
    using inv by (rule one_active_at_most_one)
  have 2: "\<exists>m. active_sims (snd (displayGraph E F V Es s)) = [m]
           \<and> tick_handlers m = 1
           \<and> force (snd (displayGraph E F V Es s)) = Some (length (sims s))
           \<and> sims (snd (displayGraph E F V Es s)) ! length (sims s) = m
           \<and> (\<forall>i < length (sims s). \<not> running (sims (snd (displayGraph E F V Es s)) ! i))"
    if ok: "fst (displayGraph_try F V Es s) = None"
  proof -
    from ok have eq: "displayGraph_try F V Es s = displayGraph_try {} V Es s"
      by (rule displayGraph_try_success)
    from ok obtain nodes links where b: "build_graph V Es = Inr (nodes, links)"
      by (cases "build_graph V Es") (auto simp: displayGraph_try_def)
    define m :: "'a simulation"
      where "m = \<lparr>sim_nodes = nodes, sim_links = links, running = True, tick_handlers = 1\<rparr>"
    have s': "sims (snd (displayGraph E F V Es s)) = stop_old s @ [m]"
      and f': "force (snd (displayGraph E F V Es s)) = Some (length (sims s))"
      by (simp_all add: displayGraph_def eq displayGraph_try_ok [OF b] m_def)
    have stopped: "filter running (stop_old s) = []"
      using inv by (rule stop_old_all_stopped)
    have a: "active_sims (snd (displayGraph E F V Es s)) = [m]"
      by (simp add: active_sims_def s' stopped m_def)
    have n: "sims (snd (displayGraph E F V Es s)) ! length (sims s) = m"
      by (simp add: s' nth_append)
    have o: "\<not> running (sims (snd (displayGraph E F V Es s)) ! i)" if "i < length (sims s)" for i
    proof -
      from that have "stop_old s ! i \<in> set (stop_old s)" by simp
      with stopped have "\<not> running (stop_old s ! i)"
        by (metis filter_empty_conv)
      with that show ?thesis by (simp add: s' nth_append)
    qed
    have "tick_handlers m = 1" by (simp add: m_def)
    with a f' n o show ?thesis by blast
  qed
  from 1 2 show ?thesis
    unfolding s_def by blast
qed

subsection \<open>The example client\<close>

lemma example_build2:
  "build_graph [vertex_a, vertex_b] [edge_e1] =
     Inr ([\<lparr>vertex = vertex_a\<rparr>, \<lparr>vertex = vertex_b\<rparr>],
          [\<lparr>edge = edge_e1, source = \<lparr>vertex = vertex_a\<rparr>, target = \<lparr>vertex = vertex_b\<rparr>\<rparr>])"
  by (simp add: build_graph_def maxNodes_def maxEdges_def vertex_a_def vertex_b_def edge_e1_def
      same_value_zero_def)

lemma new_client_fields [simp]:
  "currentQueryId (new_client p) = 0" "force (new_client p) = None" "sims (new_client p) = []"
  "statesClass (new_client p) = ''state-empty''" "socket (new_client p) = True"
  by (simp_all add: new_client_def setStateEmpty_def setState_def logToUI_def Let_def)

lemma svg_unchanged [simp]:
  "svg (logToUI a s) = svg s"
  "svg (emitToHost E m args s) = svg s"
  "svg (log E a s) = svg s"
  "svg (setState st s) = svg s"
  by (simp_all add: logToUI_def emitToHost_def log_def setState_def Let_def)

lemma statesClass_unchanged [simp]:
  "statesClass (logToUI a s) = statesClass s"
  "statesClass (emitToHost E m args s) = statesClass s"
  "statesClass (log E a s) = statesClass s"
  "statesClass (clearGraph s) = statesClass s"
  by (simp_all add: logToUI_def emitToHost_def log_def clearGraph_def Let_def)

lemma on_showResults_current:
  assumes "queryId = currentQueryId s"
  shows "\<exists>a. on_showResults E F queryId queryResults edgeResults s
           = showResults E F queryResults edgeResults (log E a s)"
proof -
  let ?a = "AStr (''Received results for query '' @ string_of_int queryId @ '' - ''
                 @ string_of_nat (length queryResults) @ '' data points, plus ''
                 @ string_of_nat (length edgeResults) @ '' edges'')"
  have "on_showResults E F queryId queryResults edgeResults s
           = showResults E F queryResults edgeResults (log E ?a s)"
    unfolding on_showResults_def Let_def using assms by (simp only: log_currentQueryId if_False simp_thms)
  then show ?thesis ..
qed

lemma dispatch_returned:
  "fst (handle E F ev s) = None \<Longrightarrow> dispatch E F ev s = snd (handle E F ev s)"
  by (cases "handle E F ev s") (simp add: dispatch_def)

lemma example_shown_eq:
  "\<exists>s2. example_shown = snd (displayGraph example_env {} [vertex_a, vertex_b] [edge_e1] s2)
     \<and> sims s2 = [] \<and> force s2 = None \<and> svg s2 = []"
proof -
  let ?qr = "[vertex_a, vertex_b, edge_e1]"
  have V: "filter (has_type ''vertex'') ?qr = [vertex_a, vertex_b]"
    and Es: "filter (has_type ''edge'') ?qr = [edge_e1]"
    by (simp_all add: example_types)
  have ne: "filter (has_type ''vertex'') ?qr \<noteq> []"
    unfolding V by simp
  note eq = showResults_graph [OF example_no_null(2) ne, unfolded V Es]
  have "0 = currentQueryId (new_client 3000 :: nat client)"
    by simp
  from on_showResults_current [OF this] obtain a where
    on: "on_showResults example_env {} 0 ?qr [] (new_client 3000)
           = showResults example_env {} ?qr [] (log example_env a (new_client 3000))"
    by blast
  define s2 where "s2 = setStateResults True
         (logToUI (AStr (stringify example_env ?qr))
           ((log example_env a (new_client 3000))\<lparr>jsonResults := stringify example_env ?qr\<rparr>))"
  have h: "handle example_env {} (ShowResults 0 ?qr []) (new_client 3000)
      = displayGraph example_env {} [vertex_a, vertex_b] [edge_e1] s2"
    unfolding handle.simps on eq s2_def append_Nil2 by (rule refl)
  have "example_shown = dispatch example_env {} (ShowResults 0 ?qr []) (new_client 3000)"
    by (simp add: example_shown_def)
  also have "\<dots> = snd (handle example_env {} (ShowResults 0 ?qr []) (new_client 3000))"
    by (rule dispatch_returned) (simp only: h displayGraph_returns)
  finally have "example_shown = snd (displayGraph example_env {} [vertex_a, vertex_b] [edge_e1] s2)"
    by (simp only: h)
  moreover have "sims s2 = []" "force s2 = None" "svg s2 = []"
    by (simp_all add: s2_def)
  ultimately show ?thesis by blast
qed

lemma example_shown_fields:
  "sims example_shown =
     [\<lparr>sim_nodes = [\<lparr>vertex = vertex_a\<rparr>, \<lparr>vertex = vertex_b\<rparr>],
       sim_links = [\<lparr>edge = edge_e1, source = \<lparr>vertex = vertex_a\<rparr>, target = \<lparr>vertex = vertex_b\<rparr>\<rparr>],
       running = True, tick_handlers = 1\<rparr>]"
  "force example_shown = Some 0"
  "svg example_shown =
     [[EdgeLine \<lparr>edge = edge_e1, source = \<lparr>vertex = vertex_a\<rparr>, target = \<lparr>vertex = vertex_b\<rparr>\<rparr>,
       LabelText \<lparr>vertex = vertex_a\<rparr>, LabelText \<lparr>vertex = vertex_b\<rparr>,
       VertexCircle \<lparr>vertex = vertex_a\<rparr>, VertexCircle \<lparr>vertex = vertex_b\<rparr>]]"
  "stats example_shown = ''Displaying all 2 vertices and 1 edges''"
proof -
  from example_shown_eq obtain s2 where
    eq: "example_shown = snd (displayGraph example_env {} [vertex_a, vertex_b] [edge_e1] s2)"
    and s2: "sims s2 = []" "force s2 = None" "svg s2 = []"
    by blast
  have st: "statsText 2 2 1 1 = ''Displaying all 2 vertices and 1 edges''"
    by (simp add: statsText_def string_of_nat.simps digit_char_def)
  have so: "stop_old s2 = []"
    by (simp add: stop_old_def s2)
  show "sims example_shown =
     [\<lparr>sim_nodes = [\<lparr>vertex = vertex_a\<rparr>, \<lparr>vertex = vertex_b\<rparr>],
       sim_links = [\<lparr>edge = edge_e1, source = \<lparr>vertex = vertex_a\<rparr>, target = \<lparr>vertex = vertex_b\<rparr>\<rparr>],
       running = True, tick_handlers = 1\<rparr>]"
    and "force example_shown = Some 0"
    and "svg example_shown =
     [[EdgeLine \<lparr>edge = edge_e1, source = \<lparr>vertex = vertex_a\<rparr>, target = \<lparr>vertex = vertex_b\<rparr>\<rparr>,
       LabelText \<lparr>vertex = vertex_a\<rparr>, LabelText \<lparr>vertex = vertex_b\<rparr>,
       VertexCircle \<lparr>vertex = vertex_a\<rparr>, VertexCircle \<lparr>vertex = vertex_b\<rparr>]]"
    unfolding eq displayGraph_ok [OF example_build2] by (simp_all add: so s2)
  have st': "statsText (Suc (Suc 0)) (Suc (Suc 0)) (Suc 0) (Suc 0)
      = ''Displaying all 2 vertices and 1 edges''"
    using st by (simp add: numeral_2_eq_2)
  show "stats example_shown = ''Displaying all 2 vertices and 1 edges''"
    unfolding eq displayGraph_ok [OF example_build2] by (simp add: st')
qed

lemma example_shown_class:
  "statesClass example_shown = ''state-graph-results state-results''"
proof -
  have "0 = currentQueryId (new_client 3000 :: nat client)"
    by simp
  from on_showResults_current [OF this] obtain a where
    on: "on_showResults example_env {} 0 [vertex_a, vertex_b, edge_e1] [] (new_client 3000)
           = showResults example_env {} [vertex_a, vertex_b, edge_e1] []
               (log example_env a (new_client 3000))"
    by blast
  have V: "filter (has_type ''vertex'') [vertex_a, vertex_b, edge_e1] = [vertex_a, vertex_b]"
    by (simp add: example_types)
  have ne: "filter (has_type ''vertex'') [vertex_a, vertex_b, edge_e1] \<noteq> []"
    unfolding V by simp
  note eq = showResults_graph [OF example_no_null(2) ne]
  have "fst (handle example_env {} (ShowResults 0 [vertex_a, vertex_b, edge_e1] []) (new_client 3000)) = None"
    unfolding handle.simps on eq by (rule displayGraph_returns)
  from dispatch_returned [OF this] show ?thesis
    unfolding example_shown_def run.simps handle.simps on eq by simp
qed


theorem one_simulation_active_witness:
  "fst (displayGraph_try {} [vertex_a] [] example_shown) = None
   \<and> length (active_sims example_shown) \<le> 1
   \<and> (\<exists>m. active_sims (snd (displayGraph example_env {} [vertex_a] [] example_shown)) = [m]
         \<and> tick_handlers m = 1)
   \<and> 0 < length (sims example_shown)
   \<and> \<not> running (sims (snd (displayGraph example_env {} [vertex_a] [] example_shown)) ! 0)"
proof -
  note T = one_simulation_active [of example_env "[({}, ShowResults 0 [vertex_a, vertex_b, edge_e1] [])]"
      3000 "{}" "[vertex_a]" "[]", folded example_shown_def]
  have a: "JNull \<notin> set [vertex_a]"
    by (simp add: vertex_a_def)
  have ok: "fst (displayGraph_try {} [vertex_a] [] example_shown) = None"
    by (rule displayGraph_rendered(1) [OF a example_no_null(4)])
  have len: "0 < length (sims example_shown)"
    by (simp add: example_shown_fields)
  from T have 1: "length (active_sims example_shown) \<le> 1"
    by (rule conjunct1)
  from T [THEN conjunct2, rule_format, OF ok] obtain m where
    m: "active_sims (snd (displayGraph example_env {} [vertex_a] [] example_shown)) = [m]"
      "tick_handlers m = 1"
    and old: "\<forall>i < length (sims example_shown).
       \<not> running (sims (snd (displayGraph example_env {} [vertex_a] [] example_shown)) ! i)"
    by blast
  from old len have 2: "\<not> running (sims (snd (displayGraph example_env {} [vertex_a] [] example_shown)) ! 0)"
    by blast
  from ok 1 m len 2 show ?thesis by blast
qed

subsection \<open>The querying and error states\<close>

lemma cleared_cong:
  "statesClass t = statesClass s \<Longrightarrow> svg t = svg s \<Longrightarrow>
   cleared_when_querying t = cleared_when_querying s"
  by (simp add: cleared_when_querying_def querying_or_error_def)

lemma setState_class [simp]:
  "statesClass (setStateQuerying s) = ''state-querying''"
  "statesClass (setStateError msg s) = ''state-error''"
  "statesClass (query E g s) = ''state-querying''"
  by (simp_all add: setStateQuerying_def setStateError_def query_def setState_def Let_def)

lemma cleared_svg [simp]:
  "svg (setStateQuerying s) = map (\<lambda>g. []) (svg s)"
  "svg (setStateError msg s) = map (\<lambda>g. []) (svg s)"
  "svg (query E g s) = map (\<lambda>g. []) (svg s)"
  by (simp_all add: setStateQuerying_def setStateError_def query_def setState_def clearGraph_def
      Let_def)

lemma other_unchanged [simp]:
  "statesClass (selectGraphView E s) = statesClass s" "svg (selectGraphView E s) = svg s"
  "statesClass (selectJsonView E s) = statesClass s" "svg (selectJsonView E s) = svg s"
  "statesClass (getPageState E s) = statesClass s" "svg (getPageState E s) = svg s"
  "statesClass (setQuery E q s) = statesClass s" "svg (setQuery E q s) = svg s"
  by (simp_all add: selectGraphView_def selectJsonView_def getPageState_def setQuery_def)

lemma cleared_frames [simp]:
  "cleared_when_querying (logToUI a s) = cleared_when_querying s"
  "cleared_when_querying (emitToHost E m args s) = cleared_when_querying s"
  "cleared_when_querying (log E a s) = cleared_when_querying s"
  "cleared_when_querying (selectGraphView E s) = cleared_when_querying s"
  "cleared_when_querying (selectJsonView E s) = cleared_when_querying s"
  "cleared_when_querying (getPageState E s) = cleared_when_querying s"
  "cleared_when_querying (setQuery E q s) = cleared_when_querying s"
  by (rule cleared_cong, simp, simp)+

lemma cleared_fields [simp]:
  "cleared_when_querying (s\<lparr>jsonResults := j\<rparr>) = cleared_when_querying s"
  "cleared_when_querying (s\<lparr>queryInput := i\<rparr>) = cleared_when_querying s"
  "cleared_when_querying (s\<lparr>currentQueryId := c\<rparr>) = cleared_when_querying s"
  "cleared_when_querying (s\<lparr>emitted := e\<rparr>) = cleared_when_querying s"
  "cleared_when_querying (s\<lparr>title := tt\<rparr>) = cleared_when_querying s"
  by (simp_all add: cleared_when_querying_def querying_or_error_def)

lemma cleared_set [simp]:
  "cleared_when_querying (setStateQuerying s)"
  "cleared_when_querying (setStateError msg s)"
  "cleared_when_querying (query E g s)"
  by (simp_all add: cleared_when_querying_def)











subsection \<open>Exceptions inside displayGraph\<close>


text \<open>
  With no d3 call throwing, the try block throws exactly when building the nodes and
  links throws, which needs a null record; this is before anything but
  \<^verbatim>\<open>clearGraph\<close> has run.
\<close>

lemma build_graph_throws:
  "build_graph V Es = Inl err \<Longrightarrow> JNull \<in> set V \<or> JNull \<in> set Es"
  using build_graph_ok [of V Es] by auto






end
